theory Spec2Isabelle
  imports Complex_Main
begin

section \<open>ThinkingFillerTransform (the filler injector)\<close>

text \<open>
  Source: \<^verbatim>\<open>packages/webrtc/src/ThinkingFillerTransform.ts\<close>.
  The class keeps its mutable state in the closure object \<^verbatim>\<open>self\<close>; the model keeps it in
  the record \<open>filler\<close>, together with the part of the host that the code talks to: the
  queue behind \<^verbatim>\<open>controller.enqueue\<close> and the host's table of pending timers
  (\<^verbatim>\<open>setTimeout\<close>, \<^verbatim>\<open>setInterval\<close>, \<^verbatim>\<open>clearTimeout\<close>, \<^verbatim>\<open>clearInterval\<close>).
  All handlers run on one event loop, one at a time, so a behaviour of the stage is
  a list of events applied in order.

  Taken from the host as given: \<^verbatim>\<open>controller.enqueue\<close> accepts every chunk (the stream is
  open while the stage is driven), and a cleared timer never fires. The observer
  callback \<^verbatim>\<open>onFillerEmitted\<close> is the one place where the stage calls code of its user:
  the model says, for the phrase the callback is given, how often it calls
  \<^verbatim>\<open>cancelPendingFiller\<close> on the stage while it runs and whether it then returns or
  throws. Anything else a callback could do to the stage is outside the model.
  \<^verbatim>\<open>maxFillersPerTurn\<close> is an integer; delays are kept in the configuration but the host
  alone decides when a pending timer fires.
\<close>

datatype jsval = Str string | Undefined

text \<open>
  How a call ends: it returns or it throws. For a call of the observer callback,
  \<open>CancelsThen r\<close> is a body that first calls \<^verbatim>\<open>cancelPendingFiller()\<close> on the stage and
  then goes on as \<open>r\<close>. The handlers of the stage themselves end in \<open>Returned\<close> or
  \<open>Thrown\<close> only.
\<close>

datatype outcome = Returned | Thrown | CancelsThen outcome

record filler_options =
  thresholdMs :: nat
  fillerPhrases :: "string list"
  enabled :: bool
  maxFillersPerTurn :: int
  fillerIntervalMs :: nat
  onFillerEmitted :: "(jsval \<Rightarrow> outcome) option"

text \<open>The defaults of the constructor's destructuring (lines 65-78).\<close>

definition default_filler_options :: filler_options where
  "default_filler_options =
     \<lparr> thresholdMs = 1000,
       fillerPhrases = [''Let me see here...'', ''Hmm, one moment...'',
                        ''Ah, let me think...'', ''Just a second...'', ''Mhm, okay...''],
       enabled = True,
       maxFillersPerTurn = 1,
       fillerIntervalMs = 2000,
       onFillerEmitted = None \<rparr>"

text \<open>
  \<open>controller\<close> is \<^verbatim>\<open>self.controller !== null\<close> and \<open>enqueued\<close> is what the controller
  has been given, in order. Timer handles are numbers drawn from \<open>next_timer\<close>; a handle
  is always truthy. \<open>pending_timeouts\<close> and \<open>pending_intervals\<close> are the host's: a timer
  callback runs only while its handle is pending.
\<close>

record filler =
  controller :: bool
  enqueued :: "jsval list"
  timeoutId :: "nat option"
  intervalId :: "nat option"
  fillersEmittedThisTurn :: int
  isProcessing :: bool
  hasReceivedResponse :: bool
  pending_timeouts :: "nat set"
  pending_intervals :: "nat set"
  next_timer :: nat

text \<open>The state after the constructor: \<^verbatim>\<open>start(controller)\<close> has run inside \<^verbatim>\<open>super(...)\<close>.\<close>

definition new_filler :: filler where
  "new_filler =
     \<lparr> controller = True, enqueued = [], timeoutId = None, intervalId = None,
       fillersEmittedThisTurn = 0, isProcessing = False, hasReceivedResponse = False,
       pending_timeouts = {}, pending_intervals = {}, next_timer = 1 \<rparr>"

definition clearTimeout :: "nat \<Rightarrow> filler \<Rightarrow> filler" where
  "clearTimeout h s = s\<lparr>pending_timeouts := pending_timeouts s - {h}\<rparr>"

definition clearInterval :: "nat \<Rightarrow> filler \<Rightarrow> filler" where
  "clearInterval h s = s\<lparr>pending_intervals := pending_intervals s - {h}\<rparr>"

text \<open>
  The block
  \<^verbatim>\<open>if (self.timeoutId) { clearTimeout(self.timeoutId); self.timeoutId = null; }
  if (self.intervalId) { clearInterval(self.intervalId); self.intervalId = null; }\<close>
  which \<^verbatim>\<open>transform\<close>, \<^verbatim>\<open>flush\<close> and \<^verbatim>\<open>cancelPendingFiller\<close> each contain.
\<close>

definition clear_and_null_timers :: "filler \<Rightarrow> filler" where
  "clear_and_null_timers s =
     (let s1 = (case timeoutId s of
                  Some h \<Rightarrow> (clearTimeout h s)\<lparr>timeoutId := None\<rparr>
                | None \<Rightarrow> s)
      in (case intervalId s1 of
            Some h \<Rightarrow> (clearInterval h s1)\<lparr>intervalId := None\<rparr>
          | None \<Rightarrow> s1))"

definition filler_transform :: "string \<Rightarrow> filler \<Rightarrow> filler" where
  "filler_transform chunk s =
     (let s1 = clear_and_null_timers s;
          s2 = s1\<lparr>hasReceivedResponse := True, isProcessing := False\<rparr>
      in s2\<lparr>enqueued := enqueued s2 @ [Str chunk]\<rparr>)"

definition filler_flush :: "filler \<Rightarrow> filler" where
  "filler_flush s = clear_and_null_timers s"

definition cancelPendingFiller :: "filler \<Rightarrow> filler" where
  "cancelPendingFiller s = (clear_and_null_timers s)\<lparr>isProcessing := False\<rparr>"

text \<open>
  A call of the observer callback, run to its end on the state of the stage: each
  \<^verbatim>\<open>cancelPendingFiller()\<close> in its body acts on the state at once, inside the handler
  that called the callback.
\<close>

fun run_callback :: "outcome \<Rightarrow> filler \<Rightarrow> outcome \<times> filler" where
  "run_callback Returned s = (Returned, s)"
| "run_callback Thrown s = (Thrown, s)"
| "run_callback (CancelsThen r) s = run_callback r (cancelPendingFiller s)"

text \<open>
  \<^verbatim>\<open>this.fillerPhrases[Math.floor(Math.random() * this.fillerPhrases.length)]\<close>: the
  random source is a parameter, \<open>k\<close> is the index it produced. Reading past the end of a
  JavaScript array gives \<^verbatim>\<open>undefined\<close>.
\<close>

definition phrase_at :: "string list \<Rightarrow> nat \<Rightarrow> jsval" where
  "phrase_at ps k = (if k < length ps then Str (ps ! k) else Undefined)"

text \<open>
  \<^verbatim>\<open>emitFiller\<close> (lines 227-248). The call \<^verbatim>\<open>this.onFillerEmitted?.(phrase)\<close> is the last
  statement and is not inside a \<^verbatim>\<open>try\<close>: when the callback throws, \<^verbatim>\<open>emitFiller\<close> throws,
  after the phrase has been enqueued and counted. What the callback does to the stage
  while it runs is done when \<^verbatim>\<open>emitFiller\<close> ends.
\<close>

definition emitFiller :: "filler_options \<Rightarrow> nat \<Rightarrow> filler \<Rightarrow> outcome \<times> filler" where
  "emitFiller cfg k s =
     (if \<not> controller s \<or> hasReceivedResponse s
         \<or> fillersEmittedThisTurn s \<ge> maxFillersPerTurn cfg
      then (Returned, s)
      else
        (let phrase = phrase_at (fillerPhrases cfg) k;
             s1 = s\<lparr>enqueued := enqueued s @ [phrase]\<rparr>;
             s2 = s1\<lparr>fillersEmittedThisTurn := fillersEmittedThisTurn s1 + 1\<rparr>
         in (case onFillerEmitted cfg of
               None \<Rightarrow> (Returned, s2)
             | Some f \<Rightarrow> run_callback (f phrase) s2)))"

text \<open>The callback given to \<^verbatim>\<open>setInterval\<close> (lines 173-185).\<close>

definition interval_callback :: "filler_options \<Rightarrow> nat \<Rightarrow> filler \<Rightarrow> outcome \<times> filler" where
  "interval_callback cfg k s =
     (if fillersEmittedThisTurn s < maxFillersPerTurn cfg \<and> \<not> hasReceivedResponse s
      then emitFiller cfg k s
      else (Returned,
            (case intervalId s of
               Some h \<Rightarrow> (clearInterval h s)\<lparr>intervalId := None\<rparr>
             | None \<Rightarrow> s)))"

text \<open>
  The callback given to \<^verbatim>\<open>setTimeout\<close> (lines 168-187). An exception leaving
  \<^verbatim>\<open>emitFiller\<close> leaves the callback too, before \<^verbatim>\<open>setInterval\<close> is reached. When
  \<^verbatim>\<open>emitFiller\<close> returns, \<^verbatim>\<open>setInterval\<close> is reached whatever \<^verbatim>\<open>emitFiller\<close> and the
  observer callback did: nothing is read in between.
\<close>

definition timeout_callback :: "filler_options \<Rightarrow> nat \<Rightarrow> filler \<Rightarrow> outcome \<times> filler" where
  "timeout_callback cfg k s =
     (case emitFiller cfg k s of
        (Returned, s1) \<Rightarrow>
          (if maxFillersPerTurn cfg > 1
           then (Returned,
                 s1\<lparr>intervalId := Some (next_timer s1),
                    pending_intervals := insert (next_timer s1) (pending_intervals s1),
                    next_timer := Suc (next_timer s1)\<rparr>)
           else (Returned, s1))
      | (r, s1) \<Rightarrow> (r, s1))"

text \<open>
  \<^verbatim>\<open>notifyProcessingStarted\<close> (lines 148-188). The old handles are cleared but, unlike in
  \<^verbatim>\<open>transform\<close>, \<^verbatim>\<open>self.intervalId\<close> is not set to null.
\<close>

definition notifyProcessingStarted :: "filler_options \<Rightarrow> filler \<Rightarrow> filler" where
  "notifyProcessingStarted cfg s =
     (if \<not> enabled cfg then s
      else
        (let s1 = s\<lparr>fillersEmittedThisTurn := 0, isProcessing := True,
                     hasReceivedResponse := False\<rparr>;
             s2 = (case timeoutId s1 of Some h \<Rightarrow> clearTimeout h s1 | None \<Rightarrow> s1);
             s3 = (case intervalId s2 of Some h \<Rightarrow> clearInterval h s2 | None \<Rightarrow> s2)
         in s3\<lparr>timeoutId := Some (next_timer s3),
               pending_timeouts := insert (next_timer s3) (pending_timeouts s3),
               next_timer := Suc (next_timer s3)\<rparr>))"

text \<open>
  What can happen to the stage. The two timer events carry the handle of the timer that
  fires and the index the random source gives to \<^verbatim>\<open>emitFiller\<close>. The host runs a callback
  only for a handle that is still pending; a timeout stops being pending when it fires,
  an interval stays pending until it is cleared. The outcome says whether an exception
  left the handler.
\<close>

datatype filler_event =
    Transform string
  | Flush
  | NotifyProcessingStarted
  | CancelPendingFiller
  | TimeoutFires nat nat
  | IntervalFires nat nat

fun filler_step :: "filler_options \<Rightarrow> filler_event \<Rightarrow> filler \<Rightarrow> outcome \<times> filler" where
  "filler_step cfg (Transform chunk) s = (Returned, filler_transform chunk s)"
| "filler_step cfg Flush s = (Returned, filler_flush s)"
| "filler_step cfg NotifyProcessingStarted s = (Returned, notifyProcessingStarted cfg s)"
| "filler_step cfg CancelPendingFiller s = (Returned, cancelPendingFiller s)"
| "filler_step cfg (TimeoutFires h k) s =
     (if h \<in> pending_timeouts s
      then timeout_callback cfg k (s\<lparr>pending_timeouts := pending_timeouts s - {h}\<rparr>)
      else (Returned, s))"
| "filler_step cfg (IntervalFires h k) s =
     (if h \<in> pending_intervals s then interval_callback cfg k s else (Returned, s))"

text \<open>
  A run of the event loop. An exception that leaves a timer callback is reported by the
  host and the loop goes on with the next event.
\<close>

fun filler_run :: "filler_options \<Rightarrow> filler_event list \<Rightarrow> filler \<Rightarrow> filler" where
  "filler_run cfg [] s = s"
| "filler_run cfg (e # es) s = filler_run cfg es (snd (filler_step cfg e s))"

text \<open>The chunks that \<^verbatim>\<open>transform\<close> is called with during a list of events.\<close>

fun chunks_of :: "filler_event list \<Rightarrow> string list" where
  "chunks_of [] = []"
| "chunks_of (Transform c # es) = c # chunks_of es"
| "chunks_of (e # es) = chunks_of es"

text \<open>
  The handles the stage remembers cover every pending timer, and no interval is pending
  while the threshold timeout is.
\<close>

definition timers_tracked :: "filler \<Rightarrow> bool" where
  "timers_tracked s \<longleftrightarrow>
     pending_timeouts s \<subseteq> set_option (timeoutId s) \<and>
     pending_intervals s \<subseteq> set_option (intervalId s) \<and>
     (pending_timeouts s = {} \<or> pending_intervals s = {})"

subsection \<open>Predicates and configurations used in the proofs\<close>

text \<open>No timer of the stage is pending.\<close>

definition no_timers :: "filler \<Rightarrow> bool" where
  "no_timers s \<longleftrightarrow> pending_timeouts s = {} \<and> pending_intervals s = {}"

text \<open>The per-turn counter is within its range.\<close>

definition counter_ok :: "filler_options \<Rightarrow> filler \<Rightarrow> bool" where
  "counter_ok cfg s \<longleftrightarrow>
     0 \<le> fillersEmittedThisTurn s \<and> fillersEmittedThisTurn s \<le> maxFillersPerTurn cfg"

text \<open>What holds of every state of a stage that was built with \<^verbatim>\<open>enabled: false\<close>.\<close>

definition idle_disabled :: "filler \<Rightarrow> bool" where
  "idle_disabled s \<longleftrightarrow> no_timers s \<and> fillersEmittedThisTurn s = 0"

text \<open>
  Two configurations: the defaults with up to two fillers per turn, and the same with
  an observer callback that throws on every phrase.
\<close>

definition two_fillers_options :: filler_options where
  "two_fillers_options = default_filler_options\<lparr>maxFillersPerTurn := 2\<rparr>"

definition throwing_options :: filler_options where
  "throwing_options = two_fillers_options\<lparr>onFillerEmitted := Some (\<lambda>phrase. Thrown)\<rparr>"

text \<open>
  Up to two fillers per turn, with an observer callback that calls
  \<^verbatim>\<open>cancelPendingFiller()\<close> on the stage and returns.
\<close>

definition cancelling_options :: filler_options where
  "cancelling_options =
     two_fillers_options\<lparr>onFillerEmitted := Some (\<lambda>phrase. CancelsThen Returned)\<rparr>"

section \<open>ElevenLabsTTSTransform (the streaming synthesis adapter)\<close>

text \<open>
  Source: \<^verbatim>\<open>packages/web/src/transforms/ElevenLabsTTSTransform.ts\<close>.
  The constructor's local variables (\<^verbatim>\<open>ws\<close>, \<^verbatim>\<open>connectionPromise\<close>, \<^verbatim>\<open>finalResolve\<close>, ...)
  are the fields of the record \<open>adapter\<close>. The record also holds what the code shares
  with its host: the sockets it has opened, the promises it has created and the timers
  it has armed. Messages are kept as JSON values; \<^verbatim>\<open>JSON.stringify\<close> and the decoding of
  base64 audio are not modelled.

  Taken from the host as given: \<^verbatim>\<open>new WebSocket\<close> and \<^verbatim>\<open>send\<close> on an open socket do not
  throw, \<^verbatim>\<open>activeController.enqueue\<close> accepts every chunk, and the stream calls
  \<^verbatim>\<open>transform\<close> and \<^verbatim>\<open>flush\<close> one at a time. Time is not modelled beyond the delay a
  timer is armed with: the host decides when an armed timer fires.
\<close>

datatype json = JString string | JNumber rat | JBool bool | JObject "(string \<times> json) list"

text \<open>
  The options object the constructor is given. \<open>None\<close> is a property that is absent
  (\<^verbatim>\<open>undefined\<close>) when the code runs; the TypeScript interface \<^verbatim>\<open>ElevenLabsOptions\<close>
  (lines 3-9) requires \<^verbatim>\<open>apiKey\<close> and \<^verbatim>\<open>voiceId\<close> of callers that are type-checked.
  \<^verbatim>\<open>flushTimeoutMs\<close> is not a property of that interface and no line of the source reads
  it. It is in the record because an options object can carry it when the code runs
  (types are erased) and the configuration the adapter is described with lists it: the
  definitions below show that nothing depends on it.
\<close>

record elevenlabs_options =
  apiKey :: "string option"
  voiceId :: "string option"
  modelId :: "string option"
  stability :: "rat option"
  similarityBoost :: "rat option"
  flushTimeoutMs :: "nat option"

text \<open>\<^verbatim>\<open>x || d\<close> on an optional string and on an optional number.\<close>

definition or_string :: "string option \<Rightarrow> string \<Rightarrow> string" where
  "or_string v d = (case v of None \<Rightarrow> d | Some x \<Rightarrow> if x = [] then d else x)"

definition or_number :: "rat option \<Rightarrow> rat \<Rightarrow> rat" where
  "or_number v d = (case v of None \<Rightarrow> d | Some x \<Rightarrow> if x = 0 then d else x)"

definition getWebSocketUrl :: "elevenlabs_options \<Rightarrow> string" where
  "getWebSocketUrl opts =
     ''wss://api.elevenlabs.io/v1/text-to-speech/''
     @ (case voiceId opts of None \<Rightarrow> ''undefined'' | Some v \<Rightarrow> v)
     @ ''/stream-input?model_id='' @ or_string (modelId opts) ''eleven_monolingual_v1''
     @ ''&output_format=pcm_16000''"

text \<open>
  The begin-of-stream message (lines 45-52). \<^verbatim>\<open>JSON.stringify\<close> leaves out a property
  whose value is \<^verbatim>\<open>undefined\<close>.
\<close>

definition voice_settings :: "elevenlabs_options \<Rightarrow> json" where
  "voice_settings opts =
     JObject [(''stability'', JNumber (or_number (stability opts) (1 / 2))),
              (''similarity_boost'', JNumber (or_number (similarityBoost opts) (3 / 4)))]"

definition bosMessage :: "elevenlabs_options \<Rightarrow> json" where
  "bosMessage opts =
     JObject ([(''text'', JString '' ''), (''voice_settings'', voice_settings opts)]
              @ (case apiKey opts of None \<Rightarrow> [] | Some k \<Rightarrow> [(''xi_api_key'', JString k)]))"

text \<open>The per-token message (line 139) and the end-of-stream message (line 157).\<close>

definition token_payload :: "string \<Rightarrow> json" where
  "token_payload token = JObject [(''text'', JString token), (''try_trigger_generation'', JBool True)]"

definition eosMessage :: json where
  "eosMessage = JObject [(''text'', JString [])]"

datatype ready_state = CONNECTING | OPEN | CLOSING | CLOSED

datatype promise_state = Pending | Fulfilled | Rejected

text \<open>
  A socket made by \<^verbatim>\<open>createConnection\<close>. \<open>attempt\<close> is the promise that the same call
  returns: the socket's handlers hold its \<^verbatim>\<open>resolve\<close> and \<^verbatim>\<open>reject\<close>. Sockets are named
  by their position in \<open>sockets\<close>, and the promise of an attempt by its socket.
\<close>

record socket =
  url :: string
  readyState :: ready_state
  sent :: "json list"
  attempt :: promise_state

text \<open>
  A timer armed by \<^verbatim>\<open>flush\<close>, with the delay given to \<^verbatim>\<open>setTimeout\<close>. Its callback
  resolves \<^verbatim>\<open>timeoutPromise\<close>, so \<open>fired\<close> also says that this promise is resolved.
\<close>

record timer =
  delay :: nat
  fired :: bool

datatype console_line =
    LogConnecting
  | LogConnected
  | ErrServer string
  | ErrParsing
  | ErrWs
  | LogClosed
  | WarnDropping string
  | ErrInTransform
  | LogFlushing
  | LogFlushTimeout

text \<open>
  An inbound message after \<^verbatim>\<open>JSON.parse\<close>: \<open>Unparsable\<close> is a message for which the
  \<^verbatim>\<open>try\<close> block throws; \<open>Response audio isFinal error\<close> has the three properties the
  handler reads.
\<close>

datatype inbound = Unparsable | Response "string option" bool "string option"

text \<open>
  Where the one \<^verbatim>\<open>async\<close> call that the stream has made is suspended. The stream calls
  \<^verbatim>\<open>transform\<close> and \<^verbatim>\<open>flush\<close> one at a time and waits for the promise each returns.
  \<open>AwaitPending\<close> is line 119, \<open>AwaitCreated\<close> is line 126 (both name the socket whose
  attempt is awaited), \<open>Draining\<close> is line 167 (the final promise and the timer of the
  race), \<open>Finished\<close> is after \<^verbatim>\<open>flush\<close> has resolved.
\<close>

datatype task =
    Idle
  | AwaitPending string nat
  | AwaitCreated string nat
  | Draining "nat option" nat
  | Finished

text \<open>
  The state of the adapter. \<open>finals\<close> are the promises made by \<^verbatim>\<open>resetFinalPromise\<close>, in
  the order they were made; \<open>finalPromise\<close> and \<open>finalResolve\<close> name one by its position.
  \<open>connectionPromise\<close> and \<open>ws\<close> name a socket. \<open>audio_out\<close> holds the base64 payloads
  whose chunks were given to \<^verbatim>\<open>activeController.enqueue\<close>, and \<open>console\<close> what was logged.
\<close>

record adapter =
  sockets :: "socket list"
  finals :: "promise_state list"
  timers :: "timer list"
  ws :: "nat option"
  connectionPromise :: "nat option"
  activeController :: bool
  audio_out :: "string list"
  isShuttingDown :: bool
  finalResolve :: "nat option"
  finalPromise :: "nat option"
  console :: "console_line list"
  task :: task

definition new_adapter :: adapter where
  "new_adapter =
     \<lparr> sockets = [], finals = [], timers = [], ws = None, connectionPromise = None,
       activeController = True, audio_out = [], isShuttingDown = False,
       finalResolve = None, finalPromise = None, console = [], task = Idle \<rparr>"

text \<open>
  The constructor (lines 12-180) declares the variables, defines the closures and calls
  \<^verbatim>\<open>super\<close>, which runs \<^verbatim>\<open>start\<close>. It has no \<^verbatim>\<open>throw\<close> and reads no option.
  \<open>Inl\<close> would be an exception leaving it.
\<close>

definition constructor :: "elevenlabs_options \<Rightarrow> string + adapter" where
  "constructor opts = Inr new_adapter"

definition console_log :: "console_line \<Rightarrow> adapter \<Rightarrow> adapter" where
  "console_log l a = a\<lparr>console := console a @ [l]\<rparr>"

text \<open>\<^verbatim>\<open>ws && ws.readyState === WebSocket.OPEN\<close>.\<close>

definition ws_open :: "adapter \<Rightarrow> bool" where
  "ws_open a =
     (case ws a of
        None \<Rightarrow> False
      | Some i \<Rightarrow> i < length (sockets a) \<and> readyState (sockets a ! i) = OPEN)"

definition send :: "nat \<Rightarrow> json \<Rightarrow> adapter \<Rightarrow> adapter" where
  "send i m a =
     (if i < length (sockets a)
      then a\<lparr>sockets := (sockets a)[i := (sockets a ! i)\<lparr>sent := sent (sockets a ! i) @ [m]\<rparr>]\<rparr>
      else a)"

definition set_ready :: "nat \<Rightarrow> ready_state \<Rightarrow> adapter \<Rightarrow> adapter" where
  "set_ready i r a =
     (if i < length (sockets a)
      then a\<lparr>sockets := (sockets a)[i := (sockets a ! i)\<lparr>readyState := r\<rparr>]\<rparr>
      else a)"

text \<open>Calling the \<^verbatim>\<open>resolve\<close> or \<^verbatim>\<open>reject\<close> of a promise: only a pending promise changes.\<close>

definition settle :: "promise_state \<Rightarrow> promise_state \<Rightarrow> promise_state" where
  "settle new old = (if old = Pending then new else old)"

definition settle_attempt :: "nat \<Rightarrow> promise_state \<Rightarrow> adapter \<Rightarrow> adapter" where
  "settle_attempt i st a =
     (if i < length (sockets a)
      then a\<lparr>sockets := (sockets a)[i := (sockets a ! i)\<lparr>attempt := settle st (attempt (sockets a ! i))\<rparr>]\<rparr>
      else a)"

definition resolve_final :: "nat \<Rightarrow> adapter \<Rightarrow> adapter" where
  "resolve_final p a =
     (if p < length (finals a)
      then a\<lparr>finals := (finals a)[p := settle Fulfilled (finals a ! p)]\<rparr>
      else a)"

definition attempt_state :: "adapter \<Rightarrow> nat \<Rightarrow> promise_state" where
  "attempt_state a i = (if i < length (sockets a) then attempt (sockets a ! i) else Pending)"

definition final_state :: "adapter \<Rightarrow> nat \<Rightarrow> promise_state" where
  "final_state a p = (if p < length (finals a) then finals a ! p else Pending)"

definition timer_fired :: "adapter \<Rightarrow> nat \<Rightarrow> bool" where
  "timer_fired a t = (t < length (timers a) \<and> fired (timers a ! t))"

definition resetFinalPromise :: "adapter \<Rightarrow> adapter" where
  "resetFinalPromise a =
     a\<lparr>finals := finals a @ [Pending],
       finalResolve := Some (length (finals a)),
       finalPromise := Some (length (finals a))\<rparr>"

text \<open>
  \<^verbatim>\<open>createConnection\<close> up to its \<^verbatim>\<open>return\<close> (lines 34-41): the result is the new socket,
  which stands for the promise returned. The four handlers follow.
\<close>

definition createConnection :: "elevenlabs_options \<Rightarrow> adapter \<Rightarrow> nat \<times> adapter" where
  "createConnection opts a =
     (let a1 = resetFinalPromise a;
          a2 = console_log LogConnecting a1
      in (length (sockets a2),
          a2\<lparr>sockets := sockets a2 @
                [\<lparr>url = getWebSocketUrl opts, readyState = CONNECTING, sent = [],
                  attempt = Pending\<rparr>]\<rparr>))"

definition on_open :: "elevenlabs_options \<Rightarrow> nat \<Rightarrow> adapter \<Rightarrow> adapter" where
  "on_open opts i a =
     (let a1 = console_log LogConnected a;
          a2 = send i (bosMessage opts) a1;
          a3 = a2\<lparr>ws := Some i\<rparr>
      in settle_attempt i Fulfilled a3)"

definition on_message :: "nat \<Rightarrow> inbound \<Rightarrow> adapter \<Rightarrow> adapter" where
  "on_message i m a =
     (case m of
        Unparsable \<Rightarrow> console_log ErrParsing a
      | Response au fin er \<Rightarrow>
          (let a1 = (case au of
                       None \<Rightarrow> a
                     | Some b \<Rightarrow>
                         if b \<noteq> [] \<and> activeController a
                         then a\<lparr>audio_out := audio_out a @ [b]\<rparr> else a);
               a2 = (if fin
                     then (case finalResolve a1 of
                             Some p \<Rightarrow> (resolve_final p a1)\<lparr>finalResolve := None\<rparr>
                           | None \<Rightarrow> a1)
                     else a1)
           in (case er of
                 None \<Rightarrow> a2
               | Some e \<Rightarrow> if e \<noteq> [] then console_log (ErrServer e) a2 else a2)))"

definition on_error :: "nat \<Rightarrow> adapter \<Rightarrow> adapter" where
  "on_error i a =
     (let a1 = console_log ErrWs a;
          a2 = (if ws a1 = Some i then a1\<lparr>ws := None, connectionPromise := None\<rparr> else a1)
      in settle_attempt i Rejected a2)"

definition on_close :: "nat \<Rightarrow> adapter \<Rightarrow> adapter" where
  "on_close i a =
     (let a1 = console_log LogClosed a;
          a2 = (if ws a1 = Some i then a1\<lparr>ws := None, connectionPromise := None\<rparr> else a1)
      in (case finalResolve a2 of
            Some p \<Rightarrow> (resolve_final p a2)\<lparr>finalResolve := None\<rparr>
          | None \<Rightarrow> a2))"

text \<open>
  \<^verbatim>\<open>transform\<close> after \<^verbatim>\<open>await ensureConnection()\<close> has returned (lines 138-146), and its
  \<^verbatim>\<open>catch\<close> (line 148). Either way the promise of \<^verbatim>\<open>transform\<close> resolves.
\<close>

definition send_or_drop :: "string \<Rightarrow> adapter \<Rightarrow> adapter" where
  "send_or_drop token a =
     (if ws_open a
      then (case ws a of Some i \<Rightarrow> send i (token_payload token) a | None \<Rightarrow> a)
      else console_log (WarnDropping token) a)\<lparr>task := Idle\<rparr>"

definition transform_caught :: "adapter \<Rightarrow> adapter" where
  "transform_caught a = (console_log ErrInTransform a)\<lparr>task := Idle\<rparr>"

text \<open>Lines 125-126: a new attempt is stored and awaited.\<close>

definition start_attempt :: "elevenlabs_options \<Rightarrow> string \<Rightarrow> adapter \<Rightarrow> adapter" where
  "start_attempt opts token a =
     (case createConnection opts a of
        (i, a1) \<Rightarrow> a1\<lparr>connectionPromise := Some i, task := AwaitCreated token i\<rparr>)"

text \<open>
  The end of \<^verbatim>\<open>flush\<close> (lines 169-177). When the close handler has set \<^verbatim>\<open>ws\<close> to null
  during the wait, \<^verbatim>\<open>ws.close()\<close> throws a TypeError, which the \<^verbatim>\<open>try\<close> swallows.
  \<^verbatim>\<open>close()\<close> on an open socket starts the closing handshake.
\<close>

definition finish_flush :: "adapter \<Rightarrow> adapter" where
  "finish_flush a =
     (let a1 = (case ws a of
                  Some i \<Rightarrow>
                    if i < length (sockets a) \<and> readyState (sockets a ! i) = OPEN
                    then set_ready i CLOSING a else a
                | None \<Rightarrow> a)
      in a1\<lparr>ws := None, connectionPromise := None, task := Finished\<rparr>)"

text \<open>
  The continuation of the suspended call. An \<^verbatim>\<open>await\<close> on a settled promise goes on
  before the host delivers another event; on a pending promise it goes on right after
  the handler that settles it. A rejected promise makes \<^verbatim>\<open>await\<close> throw, which ends
  \<^verbatim>\<open>ensureConnection\<close> and lands in the \<^verbatim>\<open>catch\<close> of \<^verbatim>\<open>transform\<close>.
\<close>

definition resume :: "elevenlabs_options \<Rightarrow> adapter \<Rightarrow> adapter" where
  "resume opts a =
     (case task a of
        AwaitPending token i \<Rightarrow>
          (case attempt_state a i of
             Pending \<Rightarrow> a
           | Fulfilled \<Rightarrow> if ws_open a then send_or_drop token a else start_attempt opts token a
           | Rejected \<Rightarrow> transform_caught a)
      | AwaitCreated token i \<Rightarrow>
          (case attempt_state a i of
             Pending \<Rightarrow> a
           | Fulfilled \<Rightarrow> send_or_drop token a
           | Rejected \<Rightarrow> transform_caught a)
      | Draining fp t \<Rightarrow>
          (if (case fp of None \<Rightarrow> True | Some p \<Rightarrow> final_state a p \<noteq> Pending) \<or> timer_fired a t
           then finish_flush a else a)
      | _ \<Rightarrow> a)"

text \<open>\<^verbatim>\<open>transform\<close> with \<^verbatim>\<open>ensureConnection\<close> inlined (lines 112-127 and 133-150).\<close>

definition tts_transform :: "elevenlabs_options \<Rightarrow> string \<Rightarrow> adapter \<Rightarrow> adapter" where
  "tts_transform opts token a =
     (if isShuttingDown a then a
      else if ws_open a then send_or_drop token a
      else (case connectionPromise a of
              Some i \<Rightarrow> resume opts (a\<lparr>task := AwaitPending token i\<rparr>)
            | None \<Rightarrow> start_attempt opts token a))"

text \<open>
  \<^verbatim>\<open>flush\<close> (lines 151-178). The delay of the timer is the literal 5000 of line 164,
  whatever the options are.
\<close>

definition tts_flush :: "elevenlabs_options \<Rightarrow> adapter \<Rightarrow> adapter" where
  "tts_flush opts a =
     (let a1 = console_log LogFlushing a;
          a2 = a1\<lparr>isShuttingDown := True\<rparr>
      in if ws_open a2
         then (case ws a2 of
                 Some i \<Rightarrow>
                   (let a3 = send i eosMessage a2;
                        a4 = a3\<lparr>timers := timers a3 @ [\<lparr>delay = 5000, fired = False\<rparr>]\<rparr>
                    in resume opts (a4\<lparr>task := Draining (finalPromise a4) (length (timers a3))\<rparr>))
               | None \<Rightarrow> a2)
         else a2\<lparr>connectionPromise := None, task := Finished\<rparr>)"

text \<open>
  What can happen to the adapter: the stream calls \<^verbatim>\<open>transform\<close> or \<^verbatim>\<open>flush\<close> (only when
  its previous call has resolved), a socket opens, delivers a message, reports an error,
  starts closing because the peer asked for it, or closes, and a timer fires. The host
  sets \<^verbatim>\<open>readyState\<close> before it calls a handler, and delivers an event only to a socket
  or timer that can still have it.

  Each event is followed by the continuation of the suspended call. For a handshake
  that fails, the \<^verbatim>\<open>ws\<close> library calls the error handler and the close handler in one
  call, so that the continuation runs after both; the model delivers \<open>WsError\<close> and
  \<open>WsClose\<close> one after the other. The two orders give the same state except for the
  order of the lines logged (lemma \<open>connect_failure_handlers_in_one_call\<close>).
\<close>

datatype tts_event =
    CallTransform string
  | CallFlush
  | WsOpen nat
  | WsMessage nat inbound
  | WsError nat
  | WsClosing nat
  | WsClose nat
  | TimerFires nat

definition ready :: "adapter \<Rightarrow> nat \<Rightarrow> ready_state option" where
  "ready a i = (if i < length (sockets a) then Some (readyState (sockets a ! i)) else None)"

fun tts_step :: "elevenlabs_options \<Rightarrow> tts_event \<Rightarrow> adapter \<Rightarrow> adapter" where
  "tts_step opts (CallTransform token) a =
     (if task a = Idle then tts_transform opts token a else a)"
| "tts_step opts CallFlush a =
     (if task a = Idle then tts_flush opts a else a)"
| "tts_step opts (WsOpen i) a =
     (if ready a i = Some CONNECTING
      then resume opts (on_open opts i (set_ready i OPEN a)) else a)"
| "tts_step opts (WsMessage i m) a =
     (if ready a i = Some OPEN \<or> ready a i = Some CLOSING
      then resume opts (on_message i m a) else a)"
| "tts_step opts (WsError i) a =
     (if ready a i \<noteq> None \<and> ready a i \<noteq> Some CLOSED
      then resume opts (on_error i (set_ready i CLOSING a)) else a)"
| "tts_step opts (WsClosing i) a =
     (if ready a i = Some OPEN then set_ready i CLOSING a else a)"
| "tts_step opts (WsClose i) a =
     (if ready a i \<noteq> None \<and> ready a i \<noteq> Some CLOSED
      then resume opts (on_close i (set_ready i CLOSED a)) else a)"
| "tts_step opts (TimerFires t) a =
     (if t < length (timers a) \<and> \<not> fired (timers a ! t)
      then resume opts
             (console_log LogFlushTimeout (a\<lparr>timers := (timers a)[t := (timers a ! t)\<lparr>fired := True\<rparr>]\<rparr>))
      else a)"

fun tts_run :: "elevenlabs_options \<Rightarrow> tts_event list \<Rightarrow> adapter \<Rightarrow> adapter" where
  "tts_run opts [] a = a"
| "tts_run opts (e # es) a = tts_run opts es (tts_step opts e a)"

text \<open>
  The resolver kept in \<^verbatim>\<open>finalResolve\<close> belongs to the promise in \<^verbatim>\<open>finalPromise\<close>, which
  is still pending; once \<^verbatim>\<open>finalResolve\<close> is null, that promise has been resolved.
\<close>

definition waiter_ok :: "adapter \<Rightarrow> bool" where
  "waiter_ok a \<longleftrightarrow>
     (case finalResolve a of
        Some p \<Rightarrow> finalPromise a = Some p \<and> p < length (finals a) \<and> finals a ! p = Pending
      | None \<Rightarrow>
          (case finalPromise a of
             Some p \<Rightarrow> p < length (finals a) \<and> finals a ! p = Fulfilled
           | None \<Rightarrow> True))"

text \<open>Two states that agree on the variables of the final promise.\<close>

definition same_waiter :: "adapter \<Rightarrow> adapter \<Rightarrow> bool" where
  "same_waiter a b \<longleftrightarrow>
     finals b = finals a \<and> finalResolve b = finalResolve a \<and> finalPromise b = finalPromise a"

text \<open>
  After \<^verbatim>\<open>flush\<close> has been called: either it has resolved, or it waits at the race with
  the timer \<open>t\<close> still to fire and the resolver of the awaited final promise still kept.
\<close>

definition draining_ok :: "nat \<Rightarrow> adapter \<Rightarrow> bool" where
  "draining_ok t a =
     (case task a of
        Finished \<Rightarrow> True
      | Draining fp t' \<Rightarrow>
          t' = t \<and> t < length (timers a) \<and> \<not> fired (timers a ! t) \<and>
          fp \<noteq> None \<and> finalResolve a = fp \<and> waiter_ok a
      | _ \<Rightarrow> False)"

text \<open>
  Options with both required properties, options with every property absent, and
  options that ask for a flush timeout of 200 ms.
\<close>

definition example_options :: elevenlabs_options where
  "example_options =
     \<lparr>apiKey = Some ''key'', voiceId = Some ''voice'', modelId = None,
      stability = None, similarityBoost = None, flushTimeoutMs = None\<rparr>"

definition missing_options :: elevenlabs_options where
  "missing_options =
     \<lparr>apiKey = None, voiceId = None, modelId = None, stability = None, similarityBoost = None,
      flushTimeoutMs = None\<rparr>"

definition short_flush_options :: elevenlabs_options where
  "short_flush_options = example_options\<lparr>flushTimeoutMs := Some 200\<rparr>"

section \<open>Properties of the filler injector\<close>

lemmas filler_defs = two_fillers_options_def throwing_options_def cancelling_options_def
  default_filler_options_def
  new_filler_def notifyProcessingStarted_def timeout_callback_def interval_callback_def
  emitFiller_def phrase_at_def clearTimeout_def clearInterval_def clear_and_null_timers_def
  filler_transform_def filler_flush_def cancelPendingFiller_def Let_def

lemma emitFiller_received: "hasReceivedResponse s \<Longrightarrow> emitFiller cfg k s = (Returned, s)"
  by (simp add: emitFiller_def)

lemma clear_and_null_timers_tracked:
  "timers_tracked s \<Longrightarrow>
   pending_timeouts (clear_and_null_timers s) = {} \<and>
   pending_intervals (clear_and_null_timers s) = {} \<and>
   timeoutId (clear_and_null_timers s) = None \<and>
   intervalId (clear_and_null_timers s) = None"
  by (auto simp: timers_tracked_def clear_and_null_timers_def clearTimeout_def
      clearInterval_def Let_def split: option.splits)

lemma clear_and_null_timers_frame:
  "enqueued (clear_and_null_timers s) = enqueued s"
  "hasReceivedResponse (clear_and_null_timers s) = hasReceivedResponse s"
  "fillersEmittedThisTurn (clear_and_null_timers s) = fillersEmittedThisTurn s"
  "controller (clear_and_null_timers s) = controller s"
  "isProcessing (clear_and_null_timers s) = isProcessing s"
  "next_timer (clear_and_null_timers s) = next_timer s"
  by (simp_all add: clear_and_null_timers_def clearTimeout_def clearInterval_def Let_def
      split: option.splits)

lemma cancelPendingFiller_frame:
  "enqueued (cancelPendingFiller s) = enqueued s"
  "hasReceivedResponse (cancelPendingFiller s) = hasReceivedResponse s"
  "fillersEmittedThisTurn (cancelPendingFiller s) = fillersEmittedThisTurn s"
  "controller (cancelPendingFiller s) = controller s"
  "next_timer (cancelPendingFiller s) = next_timer s"
  by (simp_all add: cancelPendingFiller_def clear_and_null_timers_frame)

lemma cancelPendingFiller_pending:
  "pending_timeouts (cancelPendingFiller s) \<subseteq> pending_timeouts s"
  "pending_intervals (cancelPendingFiller s) \<subseteq> pending_intervals s"
  by (auto simp: cancelPendingFiller_def clear_and_null_timers_def clearTimeout_def
      clearInterval_def Let_def split: option.splits)

lemma cancelPendingFiller_tracked:
  "timers_tracked s \<Longrightarrow> timers_tracked (cancelPendingFiller s)"
  using clear_and_null_timers_tracked[of s]
  by (simp add: cancelPendingFiller_def timers_tracked_def)

text \<open>
  What the observer callback can do to the stage: it ends by returning or throwing, it
  leaves the output, the counter and the flag alone, and it can only take timers away.
\<close>

lemma run_callback_ends:
  "fst (run_callback r s) = Returned \<or> fst (run_callback r s) = Thrown"
  by (induction r arbitrary: s) simp_all

lemma run_callback_frame:
  "enqueued (snd (run_callback r s)) = enqueued s"
  "hasReceivedResponse (snd (run_callback r s)) = hasReceivedResponse s"
  "fillersEmittedThisTurn (snd (run_callback r s)) = fillersEmittedThisTurn s"
  "controller (snd (run_callback r s)) = controller s"
  "next_timer (snd (run_callback r s)) = next_timer s"
  by (induction r arbitrary: s) (simp_all add: cancelPendingFiller_frame)

lemma run_callback_pending:
  "pending_timeouts (snd (run_callback r s)) \<subseteq> pending_timeouts s
   \<and> pending_intervals (snd (run_callback r s)) \<subseteq> pending_intervals s"
proof (induction r arbitrary: s)
  case (CancelsThen r)
  from CancelsThen[of "cancelPendingFiller s"] cancelPendingFiller_pending[of s]
  show ?case by auto
qed simp_all

lemma run_callback_tracked:
  "timers_tracked s \<Longrightarrow> timers_tracked (snd (run_callback r s))"
  by (induction r arbitrary: s) (simp_all add: cancelPendingFiller_tracked)

lemma emitFiller_cases:
  "snd (emitFiller cfg k s) = s \<or>
   (fillersEmittedThisTurn s < maxFillersPerTurn cfg \<and> \<not> hasReceivedResponse s \<and>
    enqueued (snd (emitFiller cfg k s)) = enqueued s @ [phrase_at (fillerPhrases cfg) k] \<and>
    fillersEmittedThisTurn (snd (emitFiller cfg k s)) = fillersEmittedThisTurn s + 1)"
  by (simp add: emitFiller_def Let_def run_callback_frame split: option.splits)

lemma emitFiller_ends:
  "fst (emitFiller cfg k s) = Returned \<or> fst (emitFiller cfg k s) = Thrown"
  by (simp add: emitFiller_def Let_def run_callback_ends split: option.splits)

lemma emitFiller_frame:
  "hasReceivedResponse (snd (emitFiller cfg k s)) = hasReceivedResponse s"
  "controller (snd (emitFiller cfg k s)) = controller s"
  "next_timer (snd (emitFiller cfg k s)) = next_timer s"
  by (simp_all add: emitFiller_def Let_def run_callback_frame split: option.splits)

lemma emitFiller_pending:
  "pending_timeouts (snd (emitFiller cfg k s)) \<subseteq> pending_timeouts s
   \<and> pending_intervals (snd (emitFiller cfg k s)) \<subseteq> pending_intervals s"
proof -
  let ?s2 = "s\<lparr>enqueued := enqueued s @ [phrase_at (fillerPhrases cfg) k],
               fillersEmittedThisTurn := fillersEmittedThisTurn s + 1\<rparr>"
  from run_callback_pending[of r ?s2 for r] show ?thesis
    by (simp add: emitFiller_def Let_def split: option.splits)
qed

lemma emitFiller_tracked:
  "timers_tracked s \<Longrightarrow> timers_tracked (snd (emitFiller cfg k s))"
proof -
  assume t: "timers_tracked s"
  let ?s2 = "s\<lparr>enqueued := enqueued s @ [phrase_at (fillerPhrases cfg) k],
               fillersEmittedThisTurn := fillersEmittedThisTurn s + 1\<rparr>"
  from t have t2: "timers_tracked ?s2" by (simp add: timers_tracked_def)
  from run_callback_tracked[OF t2] t t2 show ?thesis
    by (simp add: emitFiller_def Let_def split: option.splits)
qed

lemma timers_tracked_step:
  "timers_tracked s \<Longrightarrow> timers_tracked (snd (filler_step cfg e s))"
proof (cases e)
  case (Transform c)
  assume "timers_tracked s"
  from clear_and_null_timers_tracked[OF this] show ?thesis
    by (simp add: Transform filler_transform_def timers_tracked_def Let_def)
next
  case Flush
  assume "timers_tracked s"
  from clear_and_null_timers_tracked[OF this] show ?thesis
    by (simp add: Flush filler_flush_def timers_tracked_def)
next
  case NotifyProcessingStarted
  assume "timers_tracked s"
  then show ?thesis
    by (auto simp: NotifyProcessingStarted notifyProcessingStarted_def timers_tracked_def
        clearTimeout_def clearInterval_def Let_def split: option.splits)
next
  case CancelPendingFiller
  assume "timers_tracked s"
  from clear_and_null_timers_tracked[OF this] show ?thesis
    by (simp add: CancelPendingFiller cancelPendingFiller_def timers_tracked_def)
next
  case (TimeoutFires h k)
  assume t: "timers_tracked s"
  show ?thesis
  proof (cases "h \<in> pending_timeouts s")
    case False
    with t show ?thesis by (simp add: TimeoutFires)
  next
    case True
    let ?s0 = "s\<lparr>pending_timeouts := pending_timeouts s - {h}\<rparr>"
    from t True have p: "pending_timeouts ?s0 = {}" "pending_intervals ?s0 = {}"
      by (cases "timeoutId s"; auto simp: timers_tracked_def)+
    from emitFiller_pending[of cfg k ?s0] p
    have q: "pending_timeouts (snd (emitFiller cfg k ?s0)) = {}"
      "pending_intervals (snd (emitFiller cfg k ?s0)) = {}" by auto
    obtain r s1 where e: "emitFiller cfg k ?s0 = (r, s1)" by (cases "emitFiller cfg k ?s0")
    with q have "pending_timeouts s1 = {}" "pending_intervals s1 = {}" by simp_all
    then show ?thesis
      by (simp add: TimeoutFires True timeout_callback_def e timers_tracked_def
          split: outcome.splits)
  qed
next
  case (IntervalFires h k)
  assume t: "timers_tracked s"
  from emitFiller_tracked[OF t, of cfg k] t show ?thesis
    by (auto simp: IntervalFires interval_callback_def timers_tracked_def clearInterval_def
        split: option.splits)
qed

text \<open>Every handler of the stage ends by returning or by throwing.\<close>

lemma filler_step_ends:
  "fst (filler_step cfg e s) = Returned \<or> fst (filler_step cfg e s) = Thrown"
proof (cases e)
  case (TimeoutFires h k)
  let ?s0 = "s\<lparr>pending_timeouts := pending_timeouts s - {h}\<rparr>"
  obtain r s1 where e: "emitFiller cfg k ?s0 = (r, s1)" by (cases "emitFiller cfg k ?s0")
  with emitFiller_ends[of cfg k ?s0] have "r = Returned \<or> r = Thrown" by simp
  then show ?thesis
    by (auto simp: TimeoutFires timeout_callback_def e)
next
  case (IntervalFires h k)
  from emitFiller_ends[of cfg k s] show ?thesis
    by (auto simp: IntervalFires interval_callback_def)
qed simp_all

lemma timers_tracked_run:
  "timers_tracked s \<Longrightarrow> timers_tracked (filler_run cfg es s)"
  by (induction es arbitrary: s) (simp_all add: timers_tracked_step)

lemma timers_tracked_new: "timers_tracked new_filler"
  by (simp add: timers_tracked_def new_filler_def)

lemma received_step:
  "e \<noteq> NotifyProcessingStarted \<Longrightarrow> hasReceivedResponse s \<Longrightarrow>
   hasReceivedResponse (snd (filler_step cfg e s)) \<and>
   enqueued (snd (filler_step cfg e s)) = enqueued s @ map Str (chunks_of [e])"
  by (cases e)
     (simp_all add: filler_transform_def filler_flush_def cancelPendingFiller_def
       clear_and_null_timers_frame timeout_callback_def interval_callback_def
       emitFiller_received clearInterval_def Let_def split: option.splits)

lemma chunks_of_Cons: "chunks_of (e # es) = chunks_of [e] @ chunks_of es"
  by (cases e) simp_all

lemma received_run:
  "NotifyProcessingStarted \<notin> set es \<Longrightarrow> hasReceivedResponse s \<Longrightarrow>
   hasReceivedResponse (filler_run cfg es s) \<and>
   enqueued (filler_run cfg es s) = enqueued s @ map Str (chunks_of es)"
proof (induction es arbitrary: s)
  case Nil
  then show ?case by simp
next
  case (Cons e es)
  from Cons.prems have ne: "e \<noteq> NotifyProcessingStarted" and rest: "NotifyProcessingStarted \<notin> set es"
    by auto
  from received_step[OF ne Cons.prems(2), of cfg]
  have h: "hasReceivedResponse (snd (filler_step cfg e s))"
    and q: "enqueued (snd (filler_step cfg e s)) = enqueued s @ map Str (chunks_of [e])"
    by simp_all
  from Cons.IH[OF rest h] q show ?case
    by (simp add: chunks_of_Cons[of e es])
qed

lemma filler_transform_effect:
  "hasReceivedResponse (filler_transform c s) \<and>
   enqueued (filler_transform c s) = enqueued s @ [Str c]"
  by (simp add: filler_transform_def clear_and_null_timers_frame Let_def)

lemma timeout_callback_received:
  "hasReceivedResponse s \<Longrightarrow> enqueued (snd (timeout_callback cfg k s)) = enqueued s"
  by (simp add: timeout_callback_def emitFiller_received)

lemma interval_callback_received:
  "hasReceivedResponse s \<Longrightarrow> enqueued (snd (interval_callback cfg k s)) = enqueued s"
  by (simp add: interval_callback_def emitFiller_received clearInterval_def split: option.splits)

text \<open>
  Claim C3. Once \<^verbatim>\<open>transform\<close> has been called with a token, nothing but real tokens is
  enqueued until the next \<^verbatim>\<open>notifyProcessingStarted\<close>: after any events of the same turn
  the output is the old output, the token, and the tokens of later \<^verbatim>\<open>transform\<close> calls.
  And a timer callback that runs at any such later point, even one that was scheduled
  before the token arrived, enqueues nothing, because \<^verbatim>\<open>emitFiller\<close> reads
  \<^verbatim>\<open>hasReceivedResponse\<close> when it runs.
\<close>

theorem no_filler_after_first_token:
  assumes "NotifyProcessingStarted \<notin> set es"
  shows "enqueued (filler_run cfg es (filler_transform c s))
           = enqueued s @ Str c # map Str (chunks_of es)
       \<and> enqueued (snd (timeout_callback cfg k (filler_run cfg es (filler_transform c s))))
           = enqueued (filler_run cfg es (filler_transform c s))
       \<and> enqueued (snd (interval_callback cfg k (filler_run cfg es (filler_transform c s))))
           = enqueued (filler_run cfg es (filler_transform c s))"
proof -
  have t: "hasReceivedResponse (filler_transform c s)"
    and q: "enqueued (filler_transform c s) = enqueued s @ [Str c]"
    using filler_transform_effect[of c s] by simp_all
  from received_run[OF assms t, of cfg]
  have r: "hasReceivedResponse (filler_run cfg es (filler_transform c s))"
    and o: "enqueued (filler_run cfg es (filler_transform c s))
              = enqueued (filler_transform c s) @ map Str (chunks_of es)"
    by simp_all
  from o q have "enqueued (filler_run cfg es (filler_transform c s))
           = enqueued s @ Str c # map Str (chunks_of es)" by simp
  with timeout_callback_received[OF r] interval_callback_received[OF r]
  show ?thesis by simp
qed

text \<open>
  C3 at a turn with up to two fillers: the token \<^verbatim>\<open>Hi\<close> arrives before the threshold
  timer fires, and the output is the two tokens only.
\<close>

theorem no_filler_after_first_token_witness:
  "NotifyProcessingStarted \<notin> set [TimeoutFires 1 0, IntervalFires 2 0, Transform ''there'', CancelPendingFiller]
   \<and> enqueued (filler_run two_fillers_options
        [TimeoutFires 1 0, IntervalFires 2 0, Transform ''there'', CancelPendingFiller]
        (filler_transform ''Hi'' (notifyProcessingStarted two_fillers_options new_filler)))
       = [Str ''Hi'', Str ''there'']"
proof -
  have h: "NotifyProcessingStarted \<notin> set [TimeoutFires 1 0, IntervalFires 2 0, Transform ''there'', CancelPendingFiller]"
    by simp
  have e: "enqueued (notifyProcessingStarted two_fillers_options new_filler) = []"
    by (simp add: filler_defs)
  from no_filler_after_first_token[OF h, of two_fillers_options "''Hi''"
      "notifyProcessingStarted two_fillers_options new_filler" 0]
  have "enqueued (filler_run two_fillers_options
        [TimeoutFires 1 0, IntervalFires 2 0, Transform ''there'', CancelPendingFiller]
        (filler_transform ''Hi'' (notifyProcessingStarted two_fillers_options new_filler)))
       = enqueued (notifyProcessingStarted two_fillers_options new_filler)
         @ Str ''Hi'' # map Str (chunks_of [TimeoutFires 1 0, IntervalFires 2 0, Transform ''there'', CancelPendingFiller])"
    by blast
  with e h show ?thesis by (simp del: filler_run.simps)
qed

lemma no_timers_step:
  "e \<noteq> NotifyProcessingStarted \<Longrightarrow> no_timers s \<Longrightarrow>
   no_timers (snd (filler_step cfg e s)) \<and>
   enqueued (snd (filler_step cfg e s)) = enqueued s @ map Str (chunks_of [e])"
  by (cases e)
     (simp_all add: no_timers_def filler_transform_def filler_flush_def cancelPendingFiller_def
       clear_and_null_timers_def clearTimeout_def clearInterval_def Let_def split: option.splits)

lemma no_timers_run:
  "NotifyProcessingStarted \<notin> set es \<Longrightarrow> no_timers s \<Longrightarrow>
   no_timers (filler_run cfg es s) \<and>
   enqueued (filler_run cfg es s) = enqueued s @ map Str (chunks_of es)"
proof (induction es arbitrary: s)
  case Nil
  then show ?case by simp
next
  case (Cons e es)
  from Cons.prems have ne: "e \<noteq> NotifyProcessingStarted" and rest: "NotifyProcessingStarted \<notin> set es"
    by auto
  from no_timers_step[OF ne Cons.prems(2), of cfg]
  have h: "no_timers (snd (filler_step cfg e s))"
    and q: "enqueued (snd (filler_step cfg e s)) = enqueued s @ map Str (chunks_of [e])"
    by simp_all
  from Cons.IH[OF rest h] q show ?case
    by (simp add: chunks_of_Cons[of e es])
qed

lemma cancelPendingFiller_idem: "cancelPendingFiller (cancelPendingFiller s) = cancelPendingFiller s"
  by (simp add: cancelPendingFiller_def clear_and_null_timers_def clearTimeout_def
      clearInterval_def Let_def split: option.splits)

text \<open>
  \<^verbatim>\<open>cancelPendingFiller\<close> called between two handlers, that is as an event of its own and
  not from inside the observer callback. In every state the stage can reach, whatever
  the observer callback does, the call is idempotent, leaves \<^verbatim>\<open>hasReceivedResponse\<close>
  and the output unchanged and leaves no timer pending, and after it nothing but real
  tokens is enqueued until the next \<^verbatim>\<open>notifyProcessingStarted\<close>, whatever events follow.
\<close>

theorem cancelPendingFiller_stops_fillers:
  assumes "NotifyProcessingStarted \<notin> set es"
  shows "cancelPendingFiller (cancelPendingFiller (filler_run cfg es0 new_filler))
           = cancelPendingFiller (filler_run cfg es0 new_filler)
       \<and> hasReceivedResponse (cancelPendingFiller (filler_run cfg es0 new_filler))
           = hasReceivedResponse (filler_run cfg es0 new_filler)
       \<and> enqueued (cancelPendingFiller (filler_run cfg es0 new_filler))
           = enqueued (filler_run cfg es0 new_filler)
       \<and> pending_timeouts (cancelPendingFiller (filler_run cfg es0 new_filler)) = {}
       \<and> pending_intervals (cancelPendingFiller (filler_run cfg es0 new_filler)) = {}
       \<and> enqueued (filler_run cfg es (cancelPendingFiller (filler_run cfg es0 new_filler)))
           = enqueued (filler_run cfg es0 new_filler) @ map Str (chunks_of es)"
proof -
  let ?s = "filler_run cfg es0 new_filler"
  have tr: "timers_tracked ?s"
    by (rule timers_tracked_run[OF timers_tracked_new])
  from clear_and_null_timers_tracked[OF tr]
  have nt: "no_timers (cancelPendingFiller ?s)"
    by (simp add: no_timers_def cancelPendingFiller_def)
  have fr: "hasReceivedResponse (cancelPendingFiller ?s) = hasReceivedResponse ?s"
    "enqueued (cancelPendingFiller ?s) = enqueued ?s"
    by (simp_all add: cancelPendingFiller_def clear_and_null_timers_frame)
  from no_timers_run[OF assms nt, of cfg] fr nt cancelPendingFiller_idem[of ?s]
  show ?thesis by (simp add: no_timers_def)
qed

text \<open>
  The same with the threshold timer pending when the turn is cancelled: the timer event
  that follows does nothing and only the late token is enqueued.
\<close>

theorem cancelPendingFiller_stops_fillers_witness:
  "NotifyProcessingStarted \<notin> set [TimeoutFires 1 0, Transform ''late'', IntervalFires 2 0]
   \<and> pending_timeouts (filler_run two_fillers_options [NotifyProcessingStarted] new_filler) = {1}
   \<and> enqueued (filler_run two_fillers_options
        [TimeoutFires 1 0, Transform ''late'', IntervalFires 2 0]
        (cancelPendingFiller (filler_run two_fillers_options [NotifyProcessingStarted] new_filler)))
       = [Str ''late'']"
proof -
  have h: "NotifyProcessingStarted \<notin> set [TimeoutFires 1 0, Transform ''late'', IntervalFires 2 0]"
    by simp
  have p: "pending_timeouts (filler_run two_fillers_options [NotifyProcessingStarted] new_filler) = {1}"
    and e: "enqueued (filler_run two_fillers_options [NotifyProcessingStarted] new_filler) = []"
    by (simp_all add: filler_defs)
  from cancelPendingFiller_stops_fillers[OF h, of two_fillers_options "[NotifyProcessingStarted]"]
  have "enqueued (filler_run two_fillers_options
        [TimeoutFires 1 0, Transform ''late'', IntervalFires 2 0]
        (cancelPendingFiller (filler_run two_fillers_options [NotifyProcessingStarted] new_filler)))
       = enqueued (filler_run two_fillers_options [NotifyProcessingStarted] new_filler)
         @ map Str (chunks_of [TimeoutFires 1 0, Transform ''late'', IntervalFires 2 0])"
    by blast
  with h p e show ?thesis by (simp del: filler_run.simps)
qed

text \<open>
  Claim C8 at its failing input. With up to two fillers per turn, the observer callback
  calls \<^verbatim>\<open>cancelPendingFiller()\<close> when it is given the first filler, that is inside the
  threshold-timer callback. The call finds no timer pending and clears
  \<^verbatim>\<open>isProcessing\<close>; the threshold callback then goes on to \<^verbatim>\<open>setInterval\<close> (lines
  172-173), and when that timer fires a second filler is enqueued in the same turn:
  neither callback reads \<^verbatim>\<open>isProcessing\<close>.
\<close>

theorem cancel_inside_callback_then_filler:
  "isProcessing (filler_run cancelling_options
       [NotifyProcessingStarted, TimeoutFires 1 0] new_filler) = False
   \<and> timeoutId (filler_run cancelling_options
       [NotifyProcessingStarted, TimeoutFires 1 0] new_filler) = None
   \<and> hasReceivedResponse (filler_run cancelling_options
       [NotifyProcessingStarted, TimeoutFires 1 0] new_filler) = False
   \<and> enqueued (filler_run cancelling_options
       [NotifyProcessingStarted, TimeoutFires 1 0] new_filler) = [Str ''Let me see here...'']
   \<and> pending_intervals (filler_run cancelling_options
       [NotifyProcessingStarted, TimeoutFires 1 0] new_filler) = {2}
   \<and> enqueued (filler_run cancelling_options
       [NotifyProcessingStarted, TimeoutFires 1 0, IntervalFires 2 1] new_filler)
       = [Str ''Let me see here...'', Str ''Hmm, one moment...'']"
  by (simp add: filler_defs)

lemma filler_run_append: "filler_run cfg (xs @ ys) s = filler_run cfg ys (filler_run cfg xs s)"
  by (induction xs arbitrary: s) simp_all

lemma emitFiller_counter:
  "counter_ok cfg s \<Longrightarrow> counter_ok cfg (snd (emitFiller cfg k s))"
  using emitFiller_cases[of cfg k s] by (auto simp: counter_ok_def)

lemma emitFiller_account:
  "int (length (enqueued (snd (emitFiller cfg k s)))) - fillersEmittedThisTurn (snd (emitFiller cfg k s))
     = int (length (enqueued s)) - fillersEmittedThisTurn s"
  using emitFiller_cases[of cfg k s] by auto

lemma counter_ok_step:
  "0 \<le> maxFillersPerTurn cfg \<Longrightarrow> counter_ok cfg s \<Longrightarrow> counter_ok cfg (snd (filler_step cfg e s))"
proof (cases e)
  case (TimeoutFires h k)
  assume c: "counter_ok cfg s"
  let ?s0 = "s\<lparr>pending_timeouts := pending_timeouts s - {h}\<rparr>"
  from c have "counter_ok cfg ?s0" by (simp add: counter_ok_def)
  from emitFiller_counter[OF this, of k] c show ?thesis
    by (auto simp: TimeoutFires timeout_callback_def counter_ok_def split: prod.splits outcome.splits)
next
  case (IntervalFires h k)
  assume c: "counter_ok cfg s"
  from emitFiller_counter[OF c, of k] c show ?thesis
    by (auto simp: IntervalFires interval_callback_def counter_ok_def clearInterval_def
        split: option.splits)
qed (auto simp: counter_ok_def filler_transform_def filler_flush_def cancelPendingFiller_def
      clear_and_null_timers_frame notifyProcessingStarted_def clearTimeout_def clearInterval_def
      Let_def split: option.splits)

lemma account_step:
  "e \<noteq> NotifyProcessingStarted \<Longrightarrow>
   int (length (enqueued (snd (filler_step cfg e s)))) - fillersEmittedThisTurn (snd (filler_step cfg e s))
     = int (length (enqueued s)) - fillersEmittedThisTurn s + int (length (chunks_of [e]))"
proof (cases e)
  case (TimeoutFires h k)
  let ?s0 = "s\<lparr>pending_timeouts := pending_timeouts s - {h}\<rparr>"
  from emitFiller_account[of cfg k ?s0] show ?thesis
    by (auto simp: TimeoutFires timeout_callback_def split: prod.splits outcome.splits)
next
  case (IntervalFires h k)
  from emitFiller_account[of cfg k s] show ?thesis
    by (auto simp: IntervalFires interval_callback_def clearInterval_def split: option.splits)
qed (auto simp: filler_transform_def filler_flush_def cancelPendingFiller_def
      clear_and_null_timers_frame Let_def)

lemma turn_run:
  "0 \<le> maxFillersPerTurn cfg \<Longrightarrow> NotifyProcessingStarted \<notin> set es \<Longrightarrow> counter_ok cfg s \<Longrightarrow>
   counter_ok cfg (filler_run cfg es s) \<and>
   int (length (enqueued (filler_run cfg es s))) - fillersEmittedThisTurn (filler_run cfg es s)
     = int (length (enqueued s)) - fillersEmittedThisTurn s + int (length (chunks_of es))"
proof (induction es arbitrary: s)
  case Nil
  then show ?case by simp
next
  case (Cons e es)
  from Cons.prems have ne: "e \<noteq> NotifyProcessingStarted" and rest: "NotifyProcessingStarted \<notin> set es"
    by auto
  have c: "counter_ok cfg (snd (filler_step cfg e s))"
    by (rule counter_ok_step[OF Cons.prems(1) Cons.prems(3)])
  from Cons.IH[OF Cons.prems(1) rest c] account_step[OF ne, of cfg s]
  show ?case by (simp add: chunks_of_Cons[of e es])
qed

lemma idle_disabled_step:
  "\<not> enabled cfg \<Longrightarrow> idle_disabled s \<Longrightarrow> idle_disabled (snd (filler_step cfg e s))"
  by (cases e)
     (simp_all add: idle_disabled_def no_timers_def filler_transform_def filler_flush_def
       cancelPendingFiller_def notifyProcessingStarted_def
       clear_and_null_timers_def clearTimeout_def clearInterval_def Let_def split: option.splits)

lemma idle_disabled_run:
  "\<not> enabled cfg \<Longrightarrow> idle_disabled s \<Longrightarrow> idle_disabled (filler_run cfg es s)"
  by (induction es arbitrary: s) (simp_all add: idle_disabled_step)

lemma turn_start_counter:
  "fillersEmittedThisTurn (filler_run cfg (es0 @ [NotifyProcessingStarted]) new_filler) = 0"
proof (cases "enabled cfg")
  case True
  then show ?thesis
    by (simp add: filler_run_append notifyProcessingStarted_def clearTimeout_def
        clearInterval_def Let_def split: option.splits)
next
  case False
  have "idle_disabled new_filler"
    by (simp add: idle_disabled_def no_timers_def new_filler_def)
  from idle_disabled_run[OF False this] show ?thesis
    by (simp add: idle_disabled_def)
qed

text \<open>
  Claim C5. For a maximum that is not negative, in every turn (the events between one
  \<^verbatim>\<open>notifyProcessingStarted\<close> and the next, after any history) and for every order of
  timer firings, tokens and cancellations, the per-turn counter never exceeds
  \<^verbatim>\<open>maxFillersPerTurn\<close>, and the counter is exactly the number of items enqueued in the
  turn that are not tokens.
\<close>

theorem fillers_per_turn_bounded:
  assumes "0 \<le> maxFillersPerTurn cfg" and "NotifyProcessingStarted \<notin> set es"
  shows "fillersEmittedThisTurn
           (filler_run cfg es (filler_run cfg (es0 @ [NotifyProcessingStarted]) new_filler))
           \<le> maxFillersPerTurn cfg
       \<and> int (length (enqueued
           (filler_run cfg es (filler_run cfg (es0 @ [NotifyProcessingStarted]) new_filler))))
         = int (length (enqueued (filler_run cfg (es0 @ [NotifyProcessingStarted]) new_filler)))
           + int (length (chunks_of es))
           + fillersEmittedThisTurn
               (filler_run cfg es (filler_run cfg (es0 @ [NotifyProcessingStarted]) new_filler))"
proof -
  let ?s1 = "filler_run cfg (es0 @ [NotifyProcessingStarted]) new_filler"
  have z: "fillersEmittedThisTurn ?s1 = 0" by (rule turn_start_counter)
  with assms(1) have c: "counter_ok cfg ?s1" by (simp add: counter_ok_def)
  from turn_run[OF assms c] z show ?thesis by (simp add: counter_ok_def)
qed

text \<open>
  C5 with a maximum of two: the threshold timer and three firings of the interval timer
  give two fillers.
\<close>

theorem fillers_per_turn_bounded_witness:
  "0 \<le> maxFillersPerTurn two_fillers_options
   \<and> NotifyProcessingStarted \<notin> set [TimeoutFires 1 0, IntervalFires 2 1, IntervalFires 2 0]
   \<and> fillersEmittedThisTurn (filler_run two_fillers_options
         [TimeoutFires 1 0, IntervalFires 2 1, IntervalFires 2 0]
         (filler_run two_fillers_options ([] @ [NotifyProcessingStarted]) new_filler)) \<le> 2
   \<and> enqueued (filler_run two_fillers_options
         [TimeoutFires 1 0, IntervalFires 2 1, IntervalFires 2 0]
         (filler_run two_fillers_options ([] @ [NotifyProcessingStarted]) new_filler))
       = [Str ''Let me see here...'', Str ''Hmm, one moment...'']"
proof -
  have h1: "0 \<le> maxFillersPerTurn two_fillers_options"
    by (simp add: two_fillers_options_def default_filler_options_def)
  have h2: "NotifyProcessingStarted \<notin> set [TimeoutFires 1 0, IntervalFires 2 1, IntervalFires 2 0]"
    by simp
  have m: "maxFillersPerTurn two_fillers_options = 2"
    by (simp add: two_fillers_options_def default_filler_options_def)
  have e: "enqueued (filler_run two_fillers_options
         [TimeoutFires 1 0, IntervalFires 2 1, IntervalFires 2 0]
         (filler_run two_fillers_options ([] @ [NotifyProcessingStarted]) new_filler))
       = [Str ''Let me see here...'', Str ''Hmm, one moment...'']"
    by (simp add: filler_defs)
  from fillers_per_turn_bounded[OF h1 h2, of "[]"]
  have "fillersEmittedThisTurn (filler_run two_fillers_options
         [TimeoutFires 1 0, IntervalFires 2 1, IntervalFires 2 0]
         (filler_run two_fillers_options ([] @ [NotifyProcessingStarted]) new_filler))
        \<le> maxFillersPerTurn two_fillers_options"
    by blast
  with h1 h2 m e show ?thesis by (simp del: filler_run.simps)
qed

text \<open>
  Claim C4 fails as stated. With a maximum of two fillers and a callback that throws,
  the exception leaves the threshold-timer callback, after the first phrase has been
  enqueued, and no interval timer is armed: no second filler can follow in the turn.
  With the same options and no callback, the callback returns and the interval timer
  is armed.
\<close>

theorem onFillerEmitted_exception_escapes:
  "fst (filler_step throwing_options (TimeoutFires 1 0)
          (notifyProcessingStarted throwing_options new_filler)) = Thrown
   \<and> enqueued (snd (filler_step throwing_options (TimeoutFires 1 0)
          (notifyProcessingStarted throwing_options new_filler))) = [Str ''Let me see here...'']
   \<and> pending_intervals (snd (filler_step throwing_options (TimeoutFires 1 0)
          (notifyProcessingStarted throwing_options new_filler))) = {}
   \<and> pending_timeouts (snd (filler_step throwing_options (TimeoutFires 1 0)
          (notifyProcessingStarted throwing_options new_filler))) = {}
   \<and> fst (filler_step two_fillers_options (TimeoutFires 1 0)
          (notifyProcessingStarted two_fillers_options new_filler)) = Returned
   \<and> pending_intervals (snd (filler_step two_fillers_options (TimeoutFires 1 0)
          (notifyProcessingStarted two_fillers_options new_filler))) = {2}"
  by (simp add: filler_defs)

text \<open>
  Claim C4 as amended. When \<^verbatim>\<open>onFillerEmitted\<close> throws during an emission, the phrase has
  already been enqueued and counted, and the exception leaves \<^verbatim>\<open>emitFiller\<close> and the timer
  callback that called it: both callbacks end in the state \<^verbatim>\<open>emitFiller\<close> left, so the
  threshold callback does not arm the interval timer. The state stays usable: a token
  given to \<^verbatim>\<open>transform\<close> afterwards is enqueued behind the phrase.
\<close>

theorem onFillerEmitted_exception_effect:
  assumes "onFillerEmitted cfg = Some f" and "f (phrase_at (fillerPhrases cfg) k) = Thrown"
    and "controller s" and "\<not> hasReceivedResponse s"
    and "fillersEmittedThisTurn s < maxFillersPerTurn cfg"
  shows "emitFiller cfg k s
           = (Thrown, s\<lparr>enqueued := enqueued s @ [phrase_at (fillerPhrases cfg) k],
                        fillersEmittedThisTurn := fillersEmittedThisTurn s + 1\<rparr>)
       \<and> timeout_callback cfg k s = emitFiller cfg k s
       \<and> interval_callback cfg k s = emitFiller cfg k s
       \<and> enqueued (filler_transform c (snd (emitFiller cfg k s)))
           = enqueued s @ [phrase_at (fillerPhrases cfg) k, Str c]"
  using assms
  by (simp add: emitFiller_def timeout_callback_def interval_callback_def filler_transform_def
      clear_and_null_timers_frame Let_def)

text \<open>C4 as amended, at the start of a turn with the throwing callback.\<close>

theorem onFillerEmitted_exception_effect_witness:
  "onFillerEmitted throwing_options = Some (\<lambda>phrase. Thrown)
   \<and> controller (notifyProcessingStarted throwing_options new_filler)
   \<and> \<not> hasReceivedResponse (notifyProcessingStarted throwing_options new_filler)
   \<and> fillersEmittedThisTurn (notifyProcessingStarted throwing_options new_filler)
       < maxFillersPerTurn throwing_options
   \<and> fst (timeout_callback throwing_options 0 (notifyProcessingStarted throwing_options new_filler))
       = Thrown
   \<and> enqueued (filler_transform ''Hi''
        (snd (emitFiller throwing_options 0 (notifyProcessingStarted throwing_options new_filler))))
       = [Str ''Let me see here...'', Str ''Hi'']"
proof -
  let ?s = "notifyProcessingStarted throwing_options new_filler"
  have h: "onFillerEmitted throwing_options = Some (\<lambda>phrase. Thrown)"
    "(\<lambda>phrase. Thrown) (phrase_at (fillerPhrases throwing_options) 0) = Thrown"
    "controller ?s" "\<not> hasReceivedResponse ?s"
    "fillersEmittedThisTurn ?s < maxFillersPerTurn throwing_options"
    by (simp_all add: filler_defs)
  have e: "enqueued ?s = []" "phrase_at (fillerPhrases throwing_options) 0 = Str ''Let me see here...''"
    by (simp_all add: filler_defs)
  note T = onFillerEmitted_exception_effect[OF h, where c = "''Hi''"]
  from T have 1: "fst (timeout_callback throwing_options 0 ?s) = Thrown" by simp
  from T have 2: "enqueued (filler_transform ''Hi'' (snd (emitFiller throwing_options 0 ?s)))
           = enqueued ?s @ [phrase_at (fillerPhrases throwing_options) 0, Str ''Hi'']" by blast
  from h 1 2 e show ?thesis by simp
qed

section \<open>Properties of the streaming synthesis adapter\<close>

lemmas tts_defs = tts_transform_def tts_flush_def resume_def start_attempt_def createConnection_def
  resetFinalPromise_def console_log_def on_open_def on_message_def on_error_def on_close_def
  send_def set_ready_def settle_attempt_def settle_def resolve_final_def attempt_state_def
  final_state_def timer_fired_def ws_open_def ready_def send_or_drop_def transform_caught_def
  finish_flush_def new_adapter_def Let_def

lemma tts_run_append: "tts_run opts (xs @ ys) a = tts_run opts ys (tts_run opts xs a)"
  by (induction xs arbitrary: a) simp_all

lemma waiter_ok_iff:
  "waiter_ok a \<longleftrightarrow>
     (\<forall>p. finalResolve a = Some p \<longrightarrow>
          finalPromise a = Some p \<and> p < length (finals a) \<and> finals a ! p = Pending) \<and>
     (finalResolve a = None \<longrightarrow>
          (\<forall>p. finalPromise a = Some p \<longrightarrow> p < length (finals a) \<and> finals a ! p = Fulfilled))"
  by (auto simp: waiter_ok_def split: option.splits)

lemma same_waiter_ok: "same_waiter a b \<Longrightarrow> waiter_ok a \<Longrightarrow> waiter_ok b"
  by (simp add: same_waiter_def waiter_ok_iff)

lemma same_waiter_basic:
  "same_waiter a (console_log l a)"
  "same_waiter a (send i m a)"
  "same_waiter a (set_ready i r a)"
  "same_waiter a (settle_attempt i st a)"
  by (simp_all add: same_waiter_def console_log_def send_def set_ready_def settle_attempt_def)

lemma waiter_ok_resetFinalPromise: "waiter_ok (resetFinalPromise a)"
  by (simp add: waiter_ok_iff resetFinalPromise_def)

lemma waiter_ok_createConnection: "waiter_ok (snd (createConnection opts a))"
  using waiter_ok_resetFinalPromise[of a]
  by (simp add: createConnection_def Let_def waiter_ok_iff console_log_def)

lemma waiter_ok_start_attempt: "waiter_ok (start_attempt opts tok a)"
proof (cases "createConnection opts a")
  case (Pair i a1)
  with waiter_ok_createConnection[of opts a] have "waiter_ok a1" by simp
  then show ?thesis by (simp add: start_attempt_def Pair waiter_ok_iff)
qed

lemma same_waiter_send_or_drop: "same_waiter a (send_or_drop tok a)"
  by (simp add: send_or_drop_def same_waiter_def send_def console_log_def split: option.splits)

lemma same_waiter_transform_caught: "same_waiter a (transform_caught a)"
  by (simp add: transform_caught_def same_waiter_def console_log_def)

lemma same_waiter_finish_flush: "same_waiter a (finish_flush a)"
  by (simp add: finish_flush_def same_waiter_def set_ready_def Let_def split: option.splits)

lemma waiter_ok_resume: "waiter_ok a \<Longrightarrow> waiter_ok (resume opts a)"
  using same_waiter_ok[OF same_waiter_send_or_drop] same_waiter_ok[OF same_waiter_transform_caught]
    same_waiter_ok[OF same_waiter_finish_flush] waiter_ok_start_attempt
  by (simp add: resume_def split: task.splits promise_state.splits)

lemma waiter_ok_task: "waiter_ok (a\<lparr>task := t\<rparr>) = waiter_ok a"
  by (simp add: waiter_ok_iff)

lemma waiter_ok_transform: "waiter_ok a \<Longrightarrow> waiter_ok (tts_transform opts tok a)"
  using same_waiter_ok[OF same_waiter_send_or_drop] waiter_ok_start_attempt
    waiter_ok_resume[of "a\<lparr>task := AwaitPending tok i\<rparr>" for i]
  by (simp add: tts_transform_def waiter_ok_task split: option.splits)

lemma waiter_ok_flush: "waiter_ok a \<Longrightarrow> waiter_ok (tts_flush opts a)"
proof -
  assume w: "waiter_ok a"
  have pre: "waiter_ok x \<Longrightarrow> waiter_ok (resume opts (x\<lparr>task := t\<rparr>))" for x t
    using waiter_ok_resume[of "x\<lparr>task := t\<rparr>"] by (simp add: waiter_ok_task)
  have s: "waiter_ok ((send i eosMessage (console_log LogFlushing a\<lparr>isShuttingDown := True\<rparr>))
                      \<lparr>timers := ts\<rparr>)" for i ts
    using w by (simp add: waiter_ok_iff send_def console_log_def)
  show ?thesis
    using w pre[OF s]
    by (simp add: tts_flush_def Let_def split: option.splits)
       (simp add: waiter_ok_iff console_log_def)
qed

lemma waiter_ok_on_open: "waiter_ok a \<Longrightarrow> waiter_ok (on_open opts i a)"
  by (simp add: on_open_def waiter_ok_iff Let_def settle_attempt_def send_def console_log_def)

lemma waiter_ok_on_error: "waiter_ok a \<Longrightarrow> waiter_ok (on_error i a)"
  by (simp add: on_error_def waiter_ok_iff Let_def settle_attempt_def console_log_def)

lemma waiter_ok_resolve:
  "waiter_ok a \<Longrightarrow> finalResolve a = Some p \<Longrightarrow> waiter_ok ((resolve_final p a)\<lparr>finalResolve := None\<rparr>)"
  by (simp add: waiter_ok_iff resolve_final_def settle_def)

lemma waiter_ok_on_close: "waiter_ok a \<Longrightarrow> waiter_ok (on_close i a)"
proof -
  assume w: "waiter_ok a"
  define a2 where "a2 = (if ws (console_log LogClosed a) = Some i
              then console_log LogClosed a\<lparr>ws := None, connectionPromise := None\<rparr>
              else console_log LogClosed a)"
  have w2: "waiter_ok a2" using w by (simp add: a2_def waiter_ok_iff console_log_def)
  have "on_close i a = (case finalResolve a2 of
            Some p \<Rightarrow> (resolve_final p a2)\<lparr>finalResolve := None\<rparr>
          | None \<Rightarrow> a2)"
    by (simp only: on_close_def a2_def Let_def)
  with w2 waiter_ok_resolve[OF w2] show ?thesis
    by (simp split: option.splits)
qed

lemma waiter_ok_on_message: "waiter_ok a \<Longrightarrow> waiter_ok (on_message i m a)"
proof (cases m)
  case Unparsable
  assume "waiter_ok a"
  then show ?thesis by (simp add: Unparsable on_message_def waiter_ok_iff console_log_def)
next
  case (Response au fin er)
  assume w: "waiter_ok a"
  define a1 where "a1 = (case au of None \<Rightarrow> a
                     | Some b \<Rightarrow> if b \<noteq> [] \<and> activeController a
                         then a\<lparr>audio_out := audio_out a @ [b]\<rparr> else a)"
  have w1: "waiter_ok a1" using w by (simp add: a1_def waiter_ok_iff split: option.splits)
  define a2 where "a2 = (if fin then (case finalResolve a1 of
                             Some p \<Rightarrow> (resolve_final p a1)\<lparr>finalResolve := None\<rparr>
                           | None \<Rightarrow> a1) else a1)"
  have w2: "waiter_ok a2" using w1 waiter_ok_resolve[OF w1]
    by (simp add: a2_def split: option.splits)
  have "on_message i m a = (case er of None \<Rightarrow> a2
               | Some e \<Rightarrow> if e \<noteq> [] then console_log (ErrServer e) a2 else a2)"
    by (simp only: Response on_message_def a1_def a2_def Let_def inbound.case)
  with w2 show ?thesis
    by (simp add: waiter_ok_iff console_log_def split: option.splits)
qed

lemma waiter_ok_set_ready: "waiter_ok (set_ready i r a) = waiter_ok a"
  by (simp add: set_ready_def waiter_ok_iff)

lemma waiter_ok_step: "waiter_ok a \<Longrightarrow> waiter_ok (tts_step opts e a)"
proof (cases e)
  case (TimerFires t)
  assume w: "waiter_ok a"
  have "waiter_ok (console_log LogFlushTimeout (a\<lparr>timers := ts\<rparr>))" for ts
    using w by (simp add: waiter_ok_iff console_log_def)
  from waiter_ok_resume[OF this] w show ?thesis by (simp add: TimerFires)
qed (simp_all add: waiter_ok_transform waiter_ok_flush waiter_ok_resume waiter_ok_on_open
      waiter_ok_on_message waiter_ok_on_error waiter_ok_on_close waiter_ok_set_ready)

lemma waiter_ok_run: "waiter_ok a \<Longrightarrow> waiter_ok (tts_run opts es a)"
  by (induction es arbitrary: a) (simp_all add: waiter_ok_step)

lemma waiter_ok_new: "waiter_ok new_adapter"
  by (simp add: waiter_ok_iff new_adapter_def)

lemma draining_ok_cases:
  "draining_ok t a \<longleftrightarrow>
     task a = Finished \<or>
     (\<exists>p. task a = Draining (Some p) t \<and> t < length (timers a) \<and> \<not> fired (timers a ! t) \<and>
          finalResolve a = Some p \<and> waiter_ok a)"
  by (auto simp: draining_ok_def split: task.splits)

lemma task_finish_flush: "task (finish_flush a) = Finished"
  by (simp add: finish_flush_def Let_def)

lemma resume_Finished: "task a = Finished \<Longrightarrow> resume opts a = a"
  by (simp add: resume_def)

lemma resume_Draining:
  "task a = Draining fp t \<Longrightarrow>
   resume opts a =
     (if (case fp of None \<Rightarrow> True | Some p \<Rightarrow> final_state a p \<noteq> Pending) \<or> timer_fired a t
      then finish_flush a else a)"
  by (simp add: resume_def)

lemma handler_frame:
  "task (on_open opts i a) = task a" "timers (on_open opts i a) = timers a"
  "task (on_error i a) = task a" "timers (on_error i a) = timers a"
  "task (on_close i a) = task a" "timers (on_close i a) = timers a"
  "task (on_message i m a) = task a" "timers (on_message i m a) = timers a"
  "task (set_ready i r a) = task a" "timers (set_ready i r a) = timers a"
  by (simp_all add: on_open_def on_error_def on_close_def on_message_def set_ready_def
      settle_attempt_def send_def console_log_def resolve_final_def Let_def
      split: option.splits inbound.splits)

lemma finalResolve_frame:
  "finalResolve (on_open opts i a) = finalResolve a"
  "finalResolve (on_error i a) = finalResolve a"
  "finalResolve (set_ready i r a) = finalResolve a"
  by (simp_all add: on_open_def on_error_def set_ready_def
      settle_attempt_def send_def console_log_def Let_def)

lemma on_close_resolves:
  "finalResolve (on_close i a) = None"
  "finalResolve a = Some p \<Longrightarrow> p < length (finals a) \<Longrightarrow> finals a ! p = Pending \<Longrightarrow>
   finals (on_close i a) = (finals a)[p := Fulfilled]"
  "finalResolve a = None \<Longrightarrow> finals (on_close i a) = finals a"
  by (simp_all add: on_close_def console_log_def resolve_final_def settle_def Let_def
      split: option.splits)

lemma on_message_final_resolves:
  "finalResolve (on_message i (Response au True er) a) = None"
  "finalResolve a = Some p \<Longrightarrow> p < length (finals a) \<Longrightarrow> finals a ! p = Pending \<Longrightarrow>
   finals (on_message i (Response au True er) a) = (finals a)[p := Fulfilled]"
  "finalResolve a = None \<Longrightarrow> finals (on_message i (Response au True er) a) = finals a"
  by (simp_all add: on_message_def console_log_def resolve_final_def settle_def Let_def
      split: option.splits)

lemma on_message_waiter:
  "finalResolve (on_message i m a) = finalResolve a \<or>
   (\<exists>p. finalResolve a = Some p \<and> finalResolve (on_message i m a) = None \<and>
        finals (on_message i m a) = (finals a)[p := settle Fulfilled (finals a ! p)] \<and>
        p < length (finals a)) \<or>
   (\<exists>p. finalResolve a = Some p \<and> finalResolve (on_message i m a) = None \<and>
        finals (on_message i m a) = finals a \<and> \<not> p < length (finals a))"
  by (cases m)
     (auto simp: on_message_def console_log_def resolve_final_def Let_def split: option.splits)

lemma finalPromise_frame:
  "finalPromise (on_open opts i a) = finalPromise a"
  "finalPromise (on_error i a) = finalPromise a"
  "finalPromise (on_close i a) = finalPromise a"
  "finalPromise (on_message i m a) = finalPromise a"
  "finalPromise (set_ready i r a) = finalPromise a"
  by (simp_all add: on_open_def on_error_def on_close_def on_message_def set_ready_def
      settle_attempt_def send_def console_log_def resolve_final_def Let_def
      split: option.splits inbound.splits)

lemma on_message_finalResolve:
  "finalResolve (on_message i m a) = None \<or> finalResolve (on_message i m a) = finalResolve a"
  by (cases m) (simp_all add: on_message_def console_log_def resolve_final_def Let_def
      split: option.splits)

lemma resume_drain_step:
  assumes "task x = Draining (Some p) t" and "waiter_ok x" and "finalPromise x = Some p"
    and "t < length (timers x)"
    and "finalResolve x = None \<or> finalResolve x = Some p"
  shows "draining_ok t (resume opts x)"
    and "finalResolve x = None \<or> fired (timers x ! t) \<Longrightarrow> task (resume opts x) = Finished"
proof -
  have r: "resume opts x =
            (if final_state x p \<noteq> Pending \<or> timer_fired x t then finish_flush x else x)"
    using resume_Draining[OF assms(1), of opts] by simp
  have n: "finalResolve x = None \<Longrightarrow> final_state x p \<noteq> Pending"
    using assms(2,3) by (simp add: waiter_ok_iff final_state_def)
  show "draining_ok t (resume opts x)"
  proof (cases "final_state x p \<noteq> Pending \<or> timer_fired x t")
    case True
    with r show ?thesis by (simp add: draining_ok_def task_finish_flush)
  next
    case False
    with n assms(5) have "finalResolve x = Some p" by auto
    with False r assms show ?thesis
      by (simp add: draining_ok_def timer_fired_def)
  qed
  show "task (resume opts x) = Finished" if "finalResolve x = None \<or> fired (timers x ! t)"
    using that n r assms(4) by (auto simp: timer_fired_def task_finish_flush)
qed

lemma draining_ok_step: "draining_ok t a \<Longrightarrow> draining_ok t (tts_step opts e a)"
proof -
  assume d: "draining_ok t a"
  from d consider (fin) "task a = Finished"
    | (dr) p where "task a = Draining (Some p) t" "t < length (timers a)"
        "\<not> fired (timers a ! t)" "finalResolve a = Some p" "waiter_ok a"
    by (auto simp: draining_ok_cases)
  then show ?thesis
  proof cases
    case fin
    then have "task (tts_step opts e a) = Finished"
      by (cases e) (simp_all add: resume_Finished handler_frame console_log_def)
    then show ?thesis by (simp add: draining_ok_def)
  next
    case dr
    from dr(4,5) have fp: "finalPromise a = Some p" by (simp add: waiter_ok_iff)
    show ?thesis
    proof (cases e)
      case (CallTransform tok)
      with d dr show ?thesis by simp
    next
      case CallFlush
      with d dr show ?thesis by simp
    next
      case (WsOpen i)
      let ?x = "on_open opts i (set_ready i OPEN a)"
      have "draining_ok t (resume opts ?x)"
        by (rule resume_drain_step(1)[where p = p])
           (simp_all add: handler_frame finalPromise_frame finalResolve_frame dr fp
             waiter_ok_on_open waiter_ok_set_ready)
      with d show ?thesis by (simp add: WsOpen)
    next
      case (WsMessage i m)
      let ?x = "on_message i m a"
      have "draining_ok t (resume opts ?x)"
        by (rule resume_drain_step(1)[where p = p])
           (use on_message_finalResolve[of i m a] in
             \<open>simp_all add: handler_frame finalPromise_frame dr fp waiter_ok_on_message\<close>)
      with d show ?thesis by (simp add: WsMessage)
    next
      case (WsError i)
      let ?x = "on_error i (set_ready i CLOSING a)"
      have "draining_ok t (resume opts ?x)"
        by (rule resume_drain_step(1)[where p = p])
           (simp_all add: handler_frame finalPromise_frame finalResolve_frame dr fp
             waiter_ok_on_error waiter_ok_set_ready)
      with d show ?thesis by (simp add: WsError)
    next
      case (WsClosing i)
      from dr have "draining_ok t (set_ready i CLOSING a)"
        by (simp add: draining_ok_def handler_frame finalResolve_frame waiter_ok_set_ready)
      with d show ?thesis by (simp add: WsClosing)
    next
      case (WsClose i)
      let ?x = "on_close i (set_ready i CLOSED a)"
      have "draining_ok t (resume opts ?x)"
        by (rule resume_drain_step(1)[where p = p])
           (simp_all add: handler_frame finalPromise_frame on_close_resolves dr fp
             waiter_ok_on_close waiter_ok_set_ready)
      with d show ?thesis by (simp add: WsClose)
    next
      case (TimerFires t')
      let ?x = "console_log LogFlushTimeout
                  (a\<lparr>timers := (timers a)[t' := (timers a ! t')\<lparr>fired := True\<rparr>]\<rparr>)"
      have w: "waiter_ok ?x" using dr(5) by (simp add: waiter_ok_iff console_log_def)
      have "draining_ok t (resume opts ?x)"
        by (rule resume_drain_step(1)[where p = p])
           (use w dr fp in \<open>simp_all add: console_log_def\<close>)
      with d show ?thesis by (simp add: TimerFires)
    qed
  qed
qed

lemma draining_ok_run: "draining_ok t a \<Longrightarrow> draining_ok t (tts_run opts es a)"
  by (induction es arbitrary: a) (simp_all add: draining_ok_step)

lemma drain_timer_finishes:
  "draining_ok t a \<Longrightarrow> task (tts_step opts (TimerFires t) a) = Finished"
proof -
  assume d: "draining_ok t a"
  from d consider (fin) "task a = Finished"
    | (dr) p where "task a = Draining (Some p) t" "t < length (timers a)"
        "\<not> fired (timers a ! t)" "finalResolve a = Some p" "waiter_ok a"
    by (auto simp: draining_ok_cases)
  then show ?thesis
  proof cases
    case fin
    then show ?thesis by (simp add: resume_Finished console_log_def)
  next
    case dr
    from dr(4,5) have fp: "finalPromise a = Some p" by (simp add: waiter_ok_iff)
    let ?x = "console_log LogFlushTimeout
                (a\<lparr>timers := (timers a)[t := (timers a ! t)\<lparr>fired := True\<rparr>]\<rparr>)"
    have w: "waiter_ok ?x" using dr(5) by (simp add: waiter_ok_iff console_log_def)
    have "task (resume opts ?x) = Finished"
      by (rule resume_drain_step(2)[where p = p and t = t])
         (use w dr fp in \<open>simp_all add: console_log_def\<close>)
    with dr show ?thesis by simp
  qed
qed

lemma drain_final_finishes:
  "draining_ok t a \<Longrightarrow> ready a j = Some OPEN \<or> ready a j = Some CLOSING \<Longrightarrow>
   task (tts_step opts (WsMessage j (Response au True er)) a) = Finished"
proof -
  assume d: "draining_ok t a" and r: "ready a j = Some OPEN \<or> ready a j = Some CLOSING"
  from d consider (fin) "task a = Finished"
    | (dr) p where "task a = Draining (Some p) t" "t < length (timers a)"
        "\<not> fired (timers a ! t)" "finalResolve a = Some p" "waiter_ok a"
    by (auto simp: draining_ok_cases)
  then show ?thesis
  proof cases
    case fin
    then show ?thesis by (simp add: resume_Finished handler_frame)
  next
    case dr
    from dr(4,5) have fp: "finalPromise a = Some p" by (simp add: waiter_ok_iff)
    let ?x = "on_message j (Response au True er) a"
    have "task (resume opts ?x) = Finished"
      by (rule resume_drain_step(2)[where p = p and t = t])
         (simp_all add: handler_frame finalPromise_frame on_message_final_resolves dr fp
           waiter_ok_on_message)
    with r show ?thesis by auto
  qed
qed

lemma drain_close_finishes:
  "draining_ok t a \<Longrightarrow> ready a j \<noteq> None \<Longrightarrow> ready a j \<noteq> Some CLOSED \<Longrightarrow>
   task (tts_step opts (WsClose j) a) = Finished"
proof -
  assume d: "draining_ok t a" and r: "ready a j \<noteq> None" "ready a j \<noteq> Some CLOSED"
  from d consider (fin) "task a = Finished"
    | (dr) p where "task a = Draining (Some p) t" "t < length (timers a)"
        "\<not> fired (timers a ! t)" "finalResolve a = Some p" "waiter_ok a"
    by (auto simp: draining_ok_cases)
  then show ?thesis
  proof cases
    case fin
    then show ?thesis by (simp add: resume_Finished handler_frame)
  next
    case dr
    from dr(4,5) have fp: "finalPromise a = Some p" by (simp add: waiter_ok_iff)
    let ?x = "on_close j (set_ready j CLOSED a)"
    have "task (resume opts ?x) = Finished"
      by (rule resume_drain_step(2)[where p = p and t = t])
         (simp_all add: handler_frame finalPromise_frame on_close_resolves dr fp
           waiter_ok_on_close waiter_ok_set_ready)
    with r show ?thesis by simp
  qed
qed

lemma Finished_step: "task a = Finished \<Longrightarrow> task (tts_step opts e a) = Finished"
  by (cases e) (simp_all add: resume_Finished handler_frame console_log_def)

lemma flush_not_open: "\<not> ws_open a \<Longrightarrow> task (tts_flush opts a) = Finished"
proof -
  assume n: "\<not> ws_open a"
  have "\<not> ws_open ((console_log LogFlushing a)\<lparr>isShuttingDown := True\<rparr>)"
    using n by (simp add: ws_open_def console_log_def split: option.splits)
  then show ?thesis by (simp add: tts_flush_def Let_def)
qed

lemma flush_open:
  assumes w: "waiter_ok a" and o: "ws_open a"
  shows "\<exists>x. tts_flush opts a = resume opts x \<and>
             timers x = timers a @ [\<lparr>delay = 5000, fired = False\<rparr>] \<and>
             task x = Draining (finalPromise a) (length (timers a)) \<and>
             waiter_ok x \<and> finalPromise x = finalPromise a \<and> finalResolve x = finalResolve a"
proof -
  define a2 where "a2 = (console_log LogFlushing a)\<lparr>isShuttingDown := True\<rparr>"
  have o2: "ws_open a2"
    using o by (simp add: a2_def ws_open_def console_log_def split: option.splits)
  then obtain i where i: "ws a2 = Some i"
    by (auto simp: ws_open_def split: option.splits)
  define x where "x = (send i eosMessage a2)
      \<lparr>timers := timers (send i eosMessage a2) @ [\<lparr>delay = 5000, fired = False\<rparr>],
        task := Draining (finalPromise (send i eosMessage a2)) (length (timers (send i eosMessage a2)))\<rparr>"
  have fl: "tts_flush opts a = resume opts x"
    using o2 i by (simp add: tts_flush_def Let_def a2_def[symmetric] x_def)
  have "timers x = timers a @ [\<lparr>delay = 5000, fired = False\<rparr>]"
    "task x = Draining (finalPromise a) (length (timers a))"
    "waiter_ok x" "finalPromise x = finalPromise a" "finalResolve x = finalResolve a"
    using w by (simp_all add: x_def a2_def send_def console_log_def waiter_ok_iff)
  with fl show ?thesis by blast
qed

lemma flush_timer:
  assumes w: "waiter_ok a"
  shows "task (tts_flush opts a) \<noteq> Finished \<Longrightarrow>
           timers (tts_flush opts a) = timers a @ [\<lparr>delay = 5000, fired = False\<rparr>]"
proof (cases "ws_open a")
  case False
  assume "task (tts_flush opts a) \<noteq> Finished"
  with flush_not_open[OF False, of opts] show ?thesis by simp
next
  case True
  assume n: "task (tts_flush opts a) \<noteq> Finished"
  from flush_open[OF w True, of opts] obtain x where
    x: "tts_flush opts a = resume opts x" "timers x = timers a @ [\<lparr>delay = 5000, fired = False\<rparr>]"
    "task x = Draining (finalPromise a) (length (timers a))" by blast
  from resume_Draining[OF x(3), of opts] n x(1) have "resume opts x = x"
    by (auto simp: task_finish_flush split: if_splits)
  with x show ?thesis by simp
qed

lemma flush_drains:
  assumes w: "waiter_ok a"
  shows "draining_ok (length (timers a)) (tts_flush opts a)"
proof (cases "ws_open a")
  case False
  from flush_not_open[OF False, of opts] show ?thesis by (simp add: draining_ok_def)
next
  case True
  from flush_open[OF w True, of opts] obtain x where
    fl: "tts_flush opts a = resume opts x"
    and tx: "timers x = timers a @ [\<lparr>delay = 5000, fired = False\<rparr>]"
    and kx: "task x = Draining (finalPromise a) (length (timers a))"
    and wx: "waiter_ok x" and fx: "finalPromise x = finalPromise a"
    and rx: "finalResolve x = finalResolve a" by blast
  show ?thesis
  proof (cases "finalPromise a")
    case None
    with resume_Draining[OF kx, of opts] fl show ?thesis
      by (simp add: draining_ok_def task_finish_flush)
  next
    case (Some p)
    have "draining_ok (length (timers a)) (resume opts x)"
    proof (rule resume_drain_step(1)[where p = p])
      show "task x = Draining (Some p) (length (timers a))" using kx Some by simp
      show "waiter_ok x" by (rule wx)
      show "finalPromise x = Some p" using fx Some by simp
      show "length (timers a) < length (timers x)" using tx by simp
      show "finalResolve x = None \<or> finalResolve x = Some p"
        using w Some rx by (cases "finalResolve a") (auto simp: waiter_ok_iff)
    qed
    with fl show ?thesis by simp
  qed
qed

text \<open>
  Claim C2 fails as stated: the bound is not the configured \<^verbatim>\<open>flushTimeoutMs\<close>. With
  options that carry \<^verbatim>\<open>flushTimeoutMs: 200\<close>, a connected adapter and a service that sends
  audio but no final message, \<^verbatim>\<open>flush\<close> is still waiting, and the one timer that can end
  the wait was armed with a delay of 5000 ms, not 200 ms.
\<close>

theorem flush_ignores_flushTimeoutMs:
  "flushTimeoutMs short_flush_options = Some 200
   \<and> task (tts_run short_flush_options
             [CallTransform ''Hello'', WsOpen 0, CallFlush,
              WsMessage 0 (Response (Some ''QUJD'') False None)] new_adapter)
       = Draining (Some 0) 0
   \<and> timers (tts_run short_flush_options
             [CallTransform ''Hello'', WsOpen 0, CallFlush,
              WsMessage 0 (Response (Some ''QUJD'') False None)] new_adapter)
       = [\<lparr>delay = 5000, fired = False\<rparr>]"
  by (simp add: tts_defs short_flush_options_def example_options_def)

text \<open>
  Claim C2 as amended: the bound is the fixed 5000 ms. Let \<^verbatim>\<open>flush\<close> be called in a
  state the adapter can reach, with no \<^verbatim>\<open>transform\<close> pending, for any options (whatever
  \<^verbatim>\<open>flushTimeoutMs\<close> they carry). Whatever events follow, \<^verbatim>\<open>flush\<close> has resolved at the
  latest when its timer fires; unless it resolved at once, that timer was armed by the
  call with a delay of 5000 ms. At any point of the wait, a message with \<^verbatim>\<open>isFinal\<close>
  from a socket that can deliver one resolves it, and so does the close of any socket
  that is not yet closed. With no open connection \<^verbatim>\<open>flush\<close> resolves at once, and once
  resolved it stays resolved.
\<close>

theorem flush_always_completes:
  assumes "task (tts_run opts es0 new_adapter) = Idle"
  shows "task (tts_run opts (es @ [TimerFires (length (timers (tts_run opts es0 new_adapter)))])
                 (tts_step opts CallFlush (tts_run opts es0 new_adapter))) = Finished
       \<and> (ready (tts_run opts es (tts_step opts CallFlush (tts_run opts es0 new_adapter))) j
            \<in> {Some OPEN, Some CLOSING} \<longrightarrow>
          task (tts_step opts (WsMessage j (Response au True er))
                 (tts_run opts es (tts_step opts CallFlush (tts_run opts es0 new_adapter))))
            = Finished)
       \<and> (ready (tts_run opts es (tts_step opts CallFlush (tts_run opts es0 new_adapter))) j
            \<in> {Some CONNECTING, Some OPEN, Some CLOSING} \<longrightarrow>
          task (tts_step opts (WsClose j)
                 (tts_run opts es (tts_step opts CallFlush (tts_run opts es0 new_adapter))))
            = Finished)
       \<and> (task (tts_step opts CallFlush (tts_run opts es0 new_adapter)) \<noteq> Finished \<longrightarrow>
          timers (tts_step opts CallFlush (tts_run opts es0 new_adapter))
            = timers (tts_run opts es0 new_adapter) @ [\<lparr>delay = 5000, fired = False\<rparr>])
       \<and> (\<not> ws_open (tts_run opts es0 new_adapter) \<longrightarrow>
          task (tts_step opts CallFlush (tts_run opts es0 new_adapter)) = Finished)
       \<and> (task (tts_run opts es (tts_step opts CallFlush (tts_run opts es0 new_adapter))) = Finished \<longrightarrow>
          task (tts_step opts e
                 (tts_run opts es (tts_step opts CallFlush (tts_run opts es0 new_adapter)))) = Finished)"
proof -
  let ?a = "tts_run opts es0 new_adapter"
  let ?b = "tts_step opts CallFlush ?a"
  let ?c = "tts_run opts es ?b"
  have w: "waiter_ok ?a" by (rule waiter_ok_run[OF waiter_ok_new])
  have b: "?b = tts_flush opts ?a" using assms by simp
  have d: "draining_ok (length (timers ?a)) ?b"
    unfolding b by (rule flush_drains[OF w])
  have dc: "draining_ok (length (timers ?a)) ?c"
    by (rule draining_ok_run[OF d])
  have 1: "task (tts_run opts (es @ [TimerFires (length (timers ?a))]) ?b) = Finished"
    using drain_timer_finishes[OF dc, of opts] by (simp add: tts_run_append)
  have 2: "ready ?c j \<in> {Some OPEN, Some CLOSING} \<longrightarrow>
          task (tts_step opts (WsMessage j (Response au True er)) ?c) = Finished"
    using drain_final_finishes[OF dc, of j opts au er] by blast
  have 3: "ready ?c j \<in> {Some CONNECTING, Some OPEN, Some CLOSING} \<longrightarrow>
          task (tts_step opts (WsClose j) ?c) = Finished"
    using drain_close_finishes[OF dc, of j opts] by auto
  have 4: "task ?b \<noteq> Finished \<longrightarrow> timers ?b = timers ?a @ [\<lparr>delay = 5000, fired = False\<rparr>]"
    unfolding b using flush_timer[OF w, of opts] by blast
  have 5: "\<not> ws_open ?a \<longrightarrow> task ?b = Finished"
    unfolding b using flush_not_open[of ?a opts] by blast
  have 6: "task ?c = Finished \<longrightarrow> task (tts_step opts e ?c) = Finished"
    using Finished_step[of ?c opts e] by blast
  from 1 2 3 4 5 6 show ?thesis by blast
qed

text \<open>
  C2 as amended, for a connected adapter: \<^verbatim>\<open>flush\<close> waits, an audio message leaves it waiting, and
  each of the timer, a final message and the close of the socket then resolves it.
  For an adapter that never connected, \<^verbatim>\<open>flush\<close> resolves at once and stays resolved.
\<close>

theorem flush_always_completes_witness:
  "task (tts_run example_options [CallTransform ''Hello'', WsOpen 0] new_adapter) = Idle
   \<and> ready (tts_run example_options [WsMessage 0 (Response (Some ''QUJD'') False None)]
             (tts_step example_options CallFlush
               (tts_run example_options [CallTransform ''Hello'', WsOpen 0] new_adapter))) 0
       = Some OPEN
   \<and> task (tts_run example_options [WsMessage 0 (Response (Some ''QUJD'') False None)]
             (tts_step example_options CallFlush
               (tts_run example_options [CallTransform ''Hello'', WsOpen 0] new_adapter)))
       = Draining (Some 0) 0
   \<and> timers (tts_step example_options CallFlush
               (tts_run example_options [CallTransform ''Hello'', WsOpen 0] new_adapter))
       = [\<lparr>delay = 5000, fired = False\<rparr>]
   \<and> task (tts_run example_options
             ([WsMessage 0 (Response (Some ''QUJD'') False None)] @ [TimerFires 0])
             (tts_step example_options CallFlush
               (tts_run example_options [CallTransform ''Hello'', WsOpen 0] new_adapter)))
       = Finished
   \<and> task (tts_step example_options (WsMessage 0 (Response None True None))
             (tts_run example_options [WsMessage 0 (Response (Some ''QUJD'') False None)]
               (tts_step example_options CallFlush
                 (tts_run example_options [CallTransform ''Hello'', WsOpen 0] new_adapter))))
       = Finished
   \<and> task (tts_step example_options (WsClose 0)
             (tts_run example_options [WsMessage 0 (Response (Some ''QUJD'') False None)]
               (tts_step example_options CallFlush
                 (tts_run example_options [CallTransform ''Hello'', WsOpen 0] new_adapter))))
       = Finished
   \<and> task (tts_run example_options [] new_adapter) = Idle
   \<and> \<not> ws_open (tts_run example_options [] new_adapter)
   \<and> task (tts_step example_options CallFlush (tts_run example_options [] new_adapter)) = Finished
   \<and> task (tts_step example_options (WsClose 0)
             (tts_run example_options []
               (tts_step example_options CallFlush (tts_run example_options [] new_adapter))))
       = Finished"
proof -
  let ?a = "tts_run example_options [CallTransform ''Hello'', WsOpen 0] new_adapter"
  let ?b = "tts_step example_options CallFlush ?a"
  let ?es = "[WsMessage 0 (Response (Some ''QUJD'') False None)]"
  let ?c = "tts_run example_options ?es ?b"
  let ?init = "tts_run example_options [] new_adapter"
  let ?done = "tts_step example_options CallFlush ?init"
  have h: "task ?a = Idle" by (simp add: tts_defs)
  have r: "ready ?c 0 = Some OPEN" by (simp add: tts_defs)
  have d: "task ?c = Draining (Some 0) 0" by (simp add: tts_defs)
  have n: "task ?b \<noteq> Finished" by (simp add: tts_defs)
  have t: "timers ?a = []" by (simp add: tts_defs)
  have h0: "task ?init = Idle" and o0: "\<not> ws_open ?init" by (simp_all add: tts_defs)
  note T = flush_always_completes[OF h, of ?es 0 None None "WsOpen 0"]
  note U = flush_always_completes[OF h0, of "[]" 0 None None "WsClose 0"]
  from T t have 1: "task (tts_run example_options (?es @ [TimerFires 0]) ?b) = Finished"
    by (simp del: tts_run.simps tts_step.simps)
  from T r have 2: "task (tts_step example_options (WsMessage 0 (Response None True None)) ?c) = Finished"
    by (simp del: tts_run.simps tts_step.simps)
  from T r have 3: "task (tts_step example_options (WsClose 0) ?c) = Finished"
    by (simp del: tts_run.simps tts_step.simps)
  from T n t have 4: "timers ?b = [\<lparr>delay = 5000, fired = False\<rparr>]"
    by (simp del: tts_run.simps tts_step.simps)
  from U o0 have 5: "task ?done = Finished" by blast
  have 6: "task (tts_run example_options [] ?done) = Finished"
    using 5 by simp
  from U 6 have 7: "task (tts_step example_options (WsClose 0) (tts_run example_options [] ?done)) = Finished"
    by blast
  from h r d 1 2 3 4 h0 o0 5 7 show ?thesis by (simp del: tts_run.simps tts_step.simps)
qed

text \<open>
  A rejected attempt that is still in \<^verbatim>\<open>connectionPromise\<close> while \<^verbatim>\<open>ws\<close> is null: the
  \<^verbatim>\<open>await\<close> of line 119 throws for every later token, and no token starts a new attempt.
\<close>

lemma rejected_attempt_drops_token:
  assumes "ws a = None" and "connectionPromise a = Some i" and "attempt_state a i = Rejected"
    and "\<not> isShuttingDown a"
  shows "tts_transform opts token a = (a\<lparr>console := console a @ [ErrInTransform]\<rparr>)\<lparr>task := Idle\<rparr>"
proof -
  have "attempt_state (a\<lparr>task := AwaitPending token i\<rparr>) i = Rejected"
    using assms(3) by (simp add: attempt_state_def split: if_splits)
  then have "resume opts (a\<lparr>task := AwaitPending token i\<rparr>)
               = transform_caught (a\<lparr>task := AwaitPending token i\<rparr>)"
    by (simp add: resume_def)
  with assms show ?thesis
    by (simp add: tts_transform_def ws_open_def transform_caught_def console_log_def)
qed

lemma rejected_attempt_drops_every_token:
  assumes "ws a = None" and "connectionPromise a = Some i" and "attempt_state a i = Rejected"
    and "\<not> isShuttingDown a" and "task a = Idle"
  shows "sockets (tts_run opts (map CallTransform tokens) a) = sockets a
       \<and> connectionPromise (tts_run opts (map CallTransform tokens) a) = Some i
       \<and> console (tts_run opts (map CallTransform tokens) a)
           = console a @ replicate (length tokens) ErrInTransform"
  using assms
proof (induction tokens arbitrary: a)
  case Nil
  then show ?case by simp
next
  case (Cons t ts)
  let ?b = "(a\<lparr>console := console a @ [ErrInTransform]\<rparr>)\<lparr>task := Idle\<rparr>"
  have b: "tts_step opts (CallTransform t) a = ?b"
    using Cons.prems rejected_attempt_drops_token[of a i opts t] by simp
  have "ws ?b = None" "connectionPromise ?b = Some i" "attempt_state ?b i = Rejected"
    "\<not> isShuttingDown ?b" "task ?b = Idle"
    using Cons.prems by (simp_all add: attempt_state_def split: if_splits)
  from Cons.IH[OF this] b show ?case
    by (simp add: replicate_app_Cons_same)
qed

text \<open>
  The failed handshake with both handlers called before the continuation of
  \<^verbatim>\<open>transform\<close> runs, as the \<^verbatim>\<open>ws\<close> library does: the state is the one that the events
  \<open>WsError\<close> and \<open>WsClose\<close> give, with the lines logged in the order error, close, error
  in transform.
\<close>

lemma connect_failure_handlers_in_one_call:
  "resume opts (on_close 0 (set_ready 0 CLOSED
     (on_error 0 (set_ready 0 CLOSING (tts_transform opts token new_adapter)))))
   = (tts_run opts [CallTransform token, WsError 0, WsClose 0] new_adapter)
       \<lparr>console := [LogConnecting, ErrWs, LogClosed, ErrInTransform]\<rparr>"
  by (simp add: tts_defs)

text \<open>
  Claim C1 at its failing input. The first token's socket reports an error before it
  opens and then closes; a second token follows. Both tokens are dropped with an error
  logged and the stream goes on, but \<^verbatim>\<open>connectionPromise\<close> still holds the rejected
  attempt and the second \<^verbatim>\<open>transform\<close> opens no second socket: the handlers reset
  \<^verbatim>\<open>connectionPromise\<close> only when \<^verbatim>\<open>ws === newWs\<close>, and \<^verbatim>\<open>ws\<close> is assigned only on open.
\<close>

theorem connect_failure_blocks_next_token:
  "length (sockets (tts_run example_options
       [CallTransform ''Hello'', WsError 0, WsClose 0, CallTransform '' world''] new_adapter)) = 1
   \<and> connectionPromise (tts_run example_options
       [CallTransform ''Hello'', WsError 0, WsClose 0, CallTransform '' world''] new_adapter) = Some 0
   \<and> map attempt (sockets (tts_run example_options
       [CallTransform ''Hello'', WsError 0, WsClose 0, CallTransform '' world''] new_adapter)) = [Rejected]
   \<and> map sent (sockets (tts_run example_options
       [CallTransform ''Hello'', WsError 0, WsClose 0, CallTransform '' world''] new_adapter)) = [[]]
   \<and> console (tts_run example_options
       [CallTransform ''Hello'', WsError 0, WsClose 0, CallTransform '' world''] new_adapter)
       = [LogConnecting, ErrWs, ErrInTransform, LogClosed, ErrInTransform]
   \<and> task (tts_run example_options
       [CallTransform ''Hello'', WsError 0, WsClose 0, CallTransform '' world''] new_adapter) = Idle"
  by (simp add: tts_defs)

text \<open>
  Claim C6 fails as stated: what the adapter sends for the token \<^verbatim>\<open>Hello\<close> is not the
  message with the key \<^verbatim>\<open>trigger_generation\<close>.
\<close>

theorem token_message_key_counterexample:
  "map sent (sockets (tts_run example_options [CallTransform ''Hello'', WsOpen 0] new_adapter))
     \<noteq> [[bosMessage example_options,
          JObject [(''text'', JString ''Hello''), (''trigger_generation'', JBool True)]]]"
  by (simp add: tts_defs token_payload_def)

text \<open>
  Claim C6 as amended. For a token given to \<^verbatim>\<open>transform\<close> while the adapter is connected
  and not shutting down, exactly one message is added to what the connected socket has
  been sent: the object with the token under \<^verbatim>\<open>text\<close> and \<^verbatim>\<open>true\<close> under
  \<^verbatim>\<open>try_trigger_generation\<close>. The same message is sent when the token had to wait for
  the connection.
\<close>

theorem token_message_exact:
  assumes "ws a = Some i" and "ws_open a" and "\<not> isShuttingDown a"
  shows "sent (sockets (tts_transform opts token a) ! i)
           = sent (sockets a ! i)
             @ [JObject [(''text'', JString token), (''try_trigger_generation'', JBool True)]]
       \<and> task (tts_transform opts token a) = Idle
       \<and> (task a = AwaitCreated token j \<and> attempt_state a j = Fulfilled \<longrightarrow>
            sent (sockets (resume opts a) ! i)
              = sent (sockets a ! i)
                @ [JObject [(''text'', JString token), (''try_trigger_generation'', JBool True)]])"
  using assms
  by (simp add: tts_transform_def send_or_drop_def token_payload_def send_def ws_open_def resume_def)

text \<open>
  C6 as amended, for a second token on an open connection and for the first token,
  which waited for the socket to open.
\<close>

theorem token_message_exact_witness:
  "ws (tts_run example_options [CallTransform ''Hello'', WsOpen 0] new_adapter) = Some 0
   \<and> ws_open (tts_run example_options [CallTransform ''Hello'', WsOpen 0] new_adapter)
   \<and> \<not> isShuttingDown (tts_run example_options [CallTransform ''Hello'', WsOpen 0] new_adapter)
   \<and> sent (sockets (tts_transform example_options '' world''
              (tts_run example_options [CallTransform ''Hello'', WsOpen 0] new_adapter)) ! 0)
       = [bosMessage example_options,
          JObject [(''text'', JString ''Hello''), (''try_trigger_generation'', JBool True)],
          JObject [(''text'', JString '' world''), (''try_trigger_generation'', JBool True)]]
   \<and> task (on_open example_options 0 (set_ready 0 OPEN
              (tts_run example_options [CallTransform ''Hello''] new_adapter)))
       = AwaitCreated ''Hello'' 0
   \<and> attempt_state (on_open example_options 0 (set_ready 0 OPEN
              (tts_run example_options [CallTransform ''Hello''] new_adapter))) 0 = Fulfilled
   \<and> sent (sockets (resume example_options (on_open example_options 0 (set_ready 0 OPEN
              (tts_run example_options [CallTransform ''Hello''] new_adapter)))) ! 0)
       = [bosMessage example_options,
          JObject [(''text'', JString ''Hello''), (''try_trigger_generation'', JBool True)]]"
proof -
  let ?a = "tts_run example_options [CallTransform ''Hello'', WsOpen 0] new_adapter"
  let ?x = "on_open example_options 0 (set_ready 0 OPEN
              (tts_run example_options [CallTransform ''Hello''] new_adapter))"
  have h: "ws ?a = Some 0" "ws_open ?a" "\<not> isShuttingDown ?a"
    by (simp_all add: tts_defs)
  have s: "sent (sockets ?a ! 0) = [bosMessage example_options,
        JObject [(''text'', JString ''Hello''), (''try_trigger_generation'', JBool True)]]"
    by (simp add: tts_defs token_payload_def)
  have g: "ws ?x = Some 0" "ws_open ?x" "\<not> isShuttingDown ?x"
    and k: "task ?x = AwaitCreated ''Hello'' 0" "attempt_state ?x 0 = Fulfilled"
    and u: "sent (sockets ?x ! 0) = [bosMessage example_options]"
    by (simp_all add: tts_defs)
  from token_message_exact[OF h, of example_options "'' world''" 0]
  have 1: "sent (sockets (tts_transform example_options '' world'' ?a) ! 0)
          = sent (sockets ?a ! 0)
            @ [JObject [(''text'', JString '' world''), (''try_trigger_generation'', JBool True)]]"
    by blast
  from token_message_exact[OF g, where token = "''Hello''" and j = 0 and opts = example_options] k
  have 2: "sent (sockets (resume example_options ?x) ! 0)
          = sent (sockets ?x ! 0)
            @ [JObject [(''text'', JString ''Hello''), (''try_trigger_generation'', JBool True)]]"
    by blast
  from h s k u 1 2 show ?thesis by (simp del: tts_run.simps)
qed

text \<open>
  Claim C7 fails as stated: with every option absent the constructor returns the fresh
  adapter.
\<close>

theorem constructor_accepts_missing_credentials:
  "constructor missing_options = Inr new_adapter"
  by (simp add: constructor_def)

text \<open>
  Claim C7 as amended. The constructor never fails and checks nothing: for every options
  object it returns the same fresh adapter, with no socket. A missing \<^verbatim>\<open>voiceId\<close> shows
  at the first connection attempt, whose URL has \<^verbatim>\<open>undefined\<close> in its place, and a missing
  \<^verbatim>\<open>apiKey\<close> in the begin-of-stream message, which then has no \<^verbatim>\<open>xi_api_key\<close>.
\<close>

theorem constructor_never_fails:
  "constructor opts = Inr new_adapter
   \<and> sockets new_adapter = []
   \<and> (voiceId opts = None \<longrightarrow>
        map url (sockets (tts_transform opts token new_adapter))
          = [''wss://api.elevenlabs.io/v1/text-to-speech/undefined/stream-input?model_id=''
             @ or_string (modelId opts) ''eleven_monolingual_v1'' @ ''&output_format=pcm_16000''])
   \<and> (apiKey opts = None \<longrightarrow>
        map sent (sockets (tts_run opts [CallTransform token, WsOpen 0] new_adapter))
          = [[JObject [(''text'', JString '' ''), (''voice_settings'', voice_settings opts)],
              token_payload token]])"
  by (simp add: constructor_def tts_defs getWebSocketUrl_def bosMessage_def)

text \<open>C7 as amended, for the options with every property absent.\<close>

theorem constructor_never_fails_witness:
  "voiceId missing_options = None \<and> apiKey missing_options = None
   \<and> map url (sockets (tts_transform missing_options ''Hello'' new_adapter))
       = [''wss://api.elevenlabs.io/v1/text-to-speech/undefined/stream-input?model_id=eleven_monolingual_v1&output_format=pcm_16000'']
   \<and> map sent (sockets (tts_run missing_options [CallTransform ''Hello'', WsOpen 0] new_adapter))
       = [[JObject [(''text'', JString '' ''),
                    (''voice_settings'', JObject [(''stability'', JNumber (1 / 2)),
                                                  (''similarity_boost'', JNumber (3 / 4))])],
           JObject [(''text'', JString ''Hello''), (''try_trigger_generation'', JBool True)]]]"
  using constructor_never_fails[of missing_options "''Hello''"]
  by (simp add: missing_options_def or_string_def or_number_def voice_settings_def token_payload_def)

lemma or_number_nonzero: "d \<noteq> 0 \<Longrightarrow> or_number v d \<noteq> 0"
  by (simp add: or_number_def split: option.splits)

text \<open>
  Claim C10. With \<^verbatim>\<open>stability\<close> and \<^verbatim>\<open>similarityBoost\<close> both 0, the begin-of-stream message
  sent when the socket opens carries 0.5 and 0.75; and for no options do the voice
  settings carry 0 for either parameter.
\<close>

theorem zero_tuning_replaced_by_defaults:
  "map sent (sockets (tts_run (opts\<lparr>stability := Some 0, similarityBoost := Some 0\<rparr>)
                        [CallTransform token, WsOpen 0] new_adapter))
     = [[JObject ([(''text'', JString '' ''),
                   (''voice_settings'', JObject [(''stability'', JNumber (1 / 2)),
                                                 (''similarity_boost'', JNumber (3 / 4))])]
                  @ (case apiKey opts of None \<Rightarrow> [] | Some k \<Rightarrow> [(''xi_api_key'', JString k)])),
         token_payload token]]
   \<and> voice_settings opts \<noteq> JObject [(''stability'', JNumber 0), (''similarity_boost'', y)]
   \<and> voice_settings opts \<noteq> JObject [(''stability'', x), (''similarity_boost'', JNumber 0)]"
proof -
  have "or_number (stability opts) (1 / 2) \<noteq> 0" "or_number (similarityBoost opts) (3 / 4) \<noteq> 0"
    by (simp_all add: or_number_nonzero)
  then have "voice_settings opts \<noteq> JObject [(''stability'', JNumber 0), (''similarity_boost'', y)]"
    "voice_settings opts \<noteq> JObject [(''stability'', x), (''similarity_boost'', JNumber 0)]"
    by (auto simp: voice_settings_def)
  moreover have "map sent (sockets (tts_run (opts\<lparr>stability := Some 0, similarityBoost := Some 0\<rparr>)
                        [CallTransform token, WsOpen 0] new_adapter))
     = [[JObject ([(''text'', JString '' ''),
                   (''voice_settings'', JObject [(''stability'', JNumber (1 / 2)),
                                                 (''similarity_boost'', JNumber (3 / 4))])]
                  @ (case apiKey opts of None \<Rightarrow> [] | Some k \<Rightarrow> [(''xi_api_key'', JString k)])),
         token_payload token]]"
    by (simp add: tts_defs bosMessage_def voice_settings_def or_number_def)
  ultimately show ?thesis by simp
qed

text \<open>A single zero is replaced as well, and the other parameter is left as configured.\<close>

lemma single_zero_replaced_by_default:
  "voice_settings (opts\<lparr>stability := Some 0\<rparr>)
     = JObject [(''stability'', JNumber (1 / 2)),
                (''similarity_boost'', JNumber (or_number (similarityBoost opts) (3 / 4)))]"
  "voice_settings (opts\<lparr>similarityBoost := Some 0\<rparr>)
     = JObject [(''stability'', JNumber (or_number (stability opts) (1 / 2))),
                (''similarity_boost'', JNumber (3 / 4))]"
  by (simp_all add: voice_settings_def or_number_def)

text \<open>
  Claim C9. The adapter has one variable for the resolver of the final promise. In every
  state it can reach, a resolver kept there belongs to the current final promise, which
  is still pending. A message with \<^verbatim>\<open>isFinal\<close>, and likewise a close, resolves exactly
  that promise and clears the variable; when the variable is already null they resolve
  nothing. So a second final message, and a final message after a close, are no-ops
  on the final promises.
\<close>

theorem final_waiter_resolved_once:
  "(finalResolve (tts_run opts es new_adapter) = Some p \<longrightarrow>
      finalPromise (tts_run opts es new_adapter) = Some p
      \<and> p < length (finals (tts_run opts es new_adapter))
      \<and> finals (tts_run opts es new_adapter) ! p = Pending
      \<and> finals (on_message i (Response au True er) (tts_run opts es new_adapter))
          = (finals (tts_run opts es new_adapter))[p := Fulfilled]
      \<and> finals (on_close i (tts_run opts es new_adapter))
          = (finals (tts_run opts es new_adapter))[p := Fulfilled])
   \<and> (finalResolve (tts_run opts es new_adapter) = None \<longrightarrow>
      finals (on_message i (Response au True er) (tts_run opts es new_adapter))
          = finals (tts_run opts es new_adapter)
      \<and> finals (on_close i (tts_run opts es new_adapter)) = finals (tts_run opts es new_adapter))
   \<and> finalResolve (on_message i (Response au True er) (tts_run opts es new_adapter)) = None
   \<and> finalResolve (on_close i (tts_run opts es new_adapter)) = None
   \<and> finals (on_message j (Response au' True er')
               (on_message i (Response au True er) (tts_run opts es new_adapter)))
       = finals (on_message i (Response au True er) (tts_run opts es new_adapter))
   \<and> finals (on_message j (Response au' True er') (on_close i (tts_run opts es new_adapter)))
       = finals (on_close i (tts_run opts es new_adapter))"
proof -
  let ?a = "tts_run opts es new_adapter"
  have w: "waiter_ok ?a" by (rule waiter_ok_run[OF waiter_ok_new])
  have 1: "finalResolve ?a = Some p \<longrightarrow>
      finalPromise ?a = Some p \<and> p < length (finals ?a) \<and> finals ?a ! p = Pending
      \<and> finals (on_message i (Response au True er) ?a) = (finals ?a)[p := Fulfilled]
      \<and> finals (on_close i ?a) = (finals ?a)[p := Fulfilled]"
  proof
    assume r: "finalResolve ?a = Some p"
    with w have k: "finalPromise ?a = Some p" "p < length (finals ?a)" "finals ?a ! p = Pending"
      by (simp_all add: waiter_ok_iff)
    from on_message_final_resolves(2)[OF r k(2,3)] on_close_resolves(2)[OF r k(2,3)] k
    show "finalPromise ?a = Some p \<and> p < length (finals ?a) \<and> finals ?a ! p = Pending
      \<and> finals (on_message i (Response au True er) ?a) = (finals ?a)[p := Fulfilled]
      \<and> finals (on_close i ?a) = (finals ?a)[p := Fulfilled]" by simp
  qed
  have 2: "finalResolve ?a = None \<longrightarrow>
      finals (on_message i (Response au True er) ?a) = finals ?a
      \<and> finals (on_close i ?a) = finals ?a"
    by (simp add: on_message_final_resolves(3) on_close_resolves(3))
  have 3: "finalResolve (on_message i (Response au True er) ?a) = None"
    "finalResolve (on_close i ?a) = None"
    by (simp_all add: on_message_final_resolves(1) on_close_resolves(1))
  have 4: "finals (on_message j (Response au' True er') (on_message i (Response au True er) ?a))
       = finals (on_message i (Response au True er) ?a)"
    by (rule on_message_final_resolves(3)[OF 3(1)])
  have 5: "finals (on_message j (Response au' True er') (on_close i ?a)) = finals (on_close i ?a)"
    by (rule on_message_final_resolves(3)[OF 3(2)])
  from 1 2 3 4 5 show ?thesis by blast
qed

text \<open>
  C9 on an open connection: the first final message resolves the waiter, and after a
  close a final message changes nothing.
\<close>

theorem final_waiter_resolved_once_witness:
  "finalResolve (tts_run example_options [CallTransform ''Hello'', WsOpen 0] new_adapter) = Some 0
   \<and> finals (tts_run example_options [CallTransform ''Hello'', WsOpen 0] new_adapter) = [Pending]
   \<and> finals (on_message 0 (Response None True None)
        (tts_run example_options [CallTransform ''Hello'', WsOpen 0] new_adapter)) = [Fulfilled]
   \<and> finalResolve (tts_run example_options [CallTransform ''Hello'', WsOpen 0, WsClose 0] new_adapter) = None
   \<and> finals (on_message 0 (Response None True None)
        (tts_run example_options [CallTransform ''Hello'', WsOpen 0, WsClose 0] new_adapter))
       = [Fulfilled]"
proof -
  let ?a = "tts_run example_options [CallTransform ''Hello'', WsOpen 0] new_adapter"
  let ?c = "tts_run example_options [CallTransform ''Hello'', WsOpen 0, WsClose 0] new_adapter"
  have h: "finalResolve ?a = Some 0" and f: "finals ?a = [Pending]"
    by (simp_all add: tts_defs)
  have n: "finalResolve ?c = None" and g: "finals ?c = [Fulfilled]"
    by (simp_all add: tts_defs)
  from final_waiter_resolved_once[of example_options "[CallTransform ''Hello'', WsOpen 0]" 0 0 None None 0 None None] h f
  have 1: "finals (on_message 0 (Response None True None) ?a) = [Fulfilled]" by simp
  from final_waiter_resolved_once[of example_options "[CallTransform ''Hello'', WsOpen 0, WsClose 0]" 0 0 None None 0 None None] n g
  have 2: "finals (on_message 0 (Response None True None) ?c) = [Fulfilled]" by simp
  from h f n 1 2 show ?thesis by simp
qed

end
